theory Spec2Isabelle
  imports Complex_Main "HOL-Library.Word" "HOL-Library.Sublist"
begin

unbundle bit_operations_syntax

section \<open>Score data (mxl2midi.js)\<close>

text \<open>
  The objects \<open>parseXMLString\<close> builds and \<open>convertToMIDI\<close> reads. JavaScript has one
  number type; the type parameter \<open>'n\<close> says how the numbers that come out of
  \<open>parseInt\<close> are read: as \<open>int option\<close> in the parser, where \<open>None\<close> is \<open>NaN\<close>, and as
  \<open>int\<close> in the converter, whose arithmetic is modelled on finite numbers only (exact
  rationals in place of doubles). \<open>'t\<close> does the same for the tempo, which is a quotient.
  A note object is \<open>NoteData\<close> (\<open>isRest: false\<close>), a rest object is \<open>RestData\<close>
  (\<open>isRest: true\<close>, no \<open>midiNote\<close> field). \<open>midiNote\<close> is \<open>None\<close> when it is \<open>NaN\<close>.
  A measure's \<open>number\<close> is the decimal string of the number kept here.
\<close>

datatype 'n scoreNote =
    NoteData (step: string) (octave: 'n) (alter: 'n) (duration: 'n) (time: 'n)
      (midiNote: "int option") (isChord: bool) (part: nat)
  | RestData (duration: 'n) (time: 'n) (part: nat)

record 'n scoreMeasure =
  m_number :: nat
  m_notes :: "'n scoreNote list"
  m_width :: nat

record ('n, 't) scoreData =
  measures :: "'n scoreMeasure list"
  divisions :: 'n
  fifths :: 'n
  beats :: 'n
  beatType :: 'n
  tempo :: 't

section \<open>The document parseXMLString reads\<close>

text \<open>
  \<open>DOMParser\<close> is the browser's; the model starts from the document it returns, given
  by its root element. A node is an element (tag name, attributes, child nodes) or a
  text node. Strings are ASCII.
\<close>

datatype node = Element string "(string \<times> string) list" "node list" | Text string

fun isElement :: "node \<Rightarrow> bool" where
  "isElement (Element t as cs) = True"
| "isElement (Text s) = False"

fun hasTag :: "string \<Rightarrow> node \<Rightarrow> bool" where
  "hasTag name (Element t as cs) = (t = name)"
| "hasTag name (Text s) = False"

text \<open>\<open>element.children\<close>: the child nodes that are elements.\<close>

fun children :: "node \<Rightarrow> node list" where
  "children (Element t as cs) = filter isElement cs"
| "children (Text s) = []"

text \<open>The elements below a node, in document order (the node itself is not one of them).\<close>

fun descendants :: "node \<Rightarrow> node list" where
  "descendants (Element t as cs) =
     concat (map (\<lambda>c. (if isElement c then [c] else []) @ descendants c) cs)"
| "descendants (Text s) = []"

fun textContent :: "node \<Rightarrow> string" where
  "textContent (Element t as cs) = concat (map textContent cs)"
| "textContent (Text s) = s"

definition getAttribute :: "string \<Rightarrow> node \<Rightarrow> string option" where
  "getAttribute name n = (case n of Element t as cs \<Rightarrow> map_of as name | Text s \<Rightarrow> None)"

text \<open>\<open>querySelectorAll\<close> and \<open>querySelector\<close> of an element, for a selector that is a tag name.\<close>

definition querySelectorAll :: "string \<Rightarrow> node \<Rightarrow> node list" where
  "querySelectorAll name n = filter (hasTag name) (descendants n)"

definition querySelector :: "string \<Rightarrow> node \<Rightarrow> node option" where
  "querySelector name n = (case querySelectorAll name n of [] \<Rightarrow> None | x # xs \<Rightarrow> Some x)"

text \<open>The same on the document, whose elements are the root and what is below it.\<close>

definition docSelectorAll :: "string \<Rightarrow> node \<Rightarrow> node list" where
  "docSelectorAll name doc = filter (hasTag name) (doc # descendants doc)"

definition docSelector :: "string \<Rightarrow> node \<Rightarrow> node option" where
  "docSelector name doc = (case docSelectorAll name doc of [] \<Rightarrow> None | x # xs \<Rightarrow> Some x)"

text \<open>\<open>querySelector('sound[tempo]')\<close>: the first \<open>sound\<close> element with a \<open>tempo\<close> attribute.\<close>

definition soundWithTempo :: "node \<Rightarrow> node option" where
  "soundWithTempo doc =
     (case filter (\<lambda>n. getAttribute ''tempo'' n \<noteq> None) (docSelectorAll ''sound'' doc) of
        [] \<Rightarrow> None | x # xs \<Rightarrow> Some x)"

text \<open>
  \<open>querySelector('measure attributes')\<close>: the first \<open>attributes\<close> element, in document
  order, that is below some \<open>measure\<close> element. That is the first \<open>attributes\<close> below the
  first \<open>measure\<close> that has one.
\<close>

definition measureAttributes :: "node \<Rightarrow> node option" where
  "measureAttributes doc =
     (case concat (map (querySelectorAll ''attributes'') (docSelectorAll ''measure'' doc)) of
        [] \<Rightarrow> None | x # xs \<Rightarrow> Some x)"

subsection \<open>parseInt and parseFloat\<close>

definition isSpace :: "char \<Rightarrow> bool" where
  "isSpace c = (c \<in> set [CHR '' '', CHR 0x09, CHR 0x0A, CHR 0x0B, CHR 0x0C, CHR 0x0D])"

definition digitOf :: "char \<Rightarrow> nat option" where
  "digitOf c =
     (let k = (of_char c :: nat)
      in if 48 \<le> k \<and> k \<le> 57 then Some (k - 48)
         else if 97 \<le> k \<and> k \<le> 102 then Some (k - 87)
         else if 65 \<le> k \<and> k \<le> 70 then Some (k - 55)
         else None)"

definition isDigit :: "nat \<Rightarrow> char \<Rightarrow> bool" where
  "isDigit radix c = (case digitOf c of None \<Rightarrow> False | Some d \<Rightarrow> d < radix)"

definition digitsValue :: "nat \<Rightarrow> string \<Rightarrow> nat" where
  "digitsValue radix ds =
     foldl (\<lambda>acc c. acc * radix + (case digitOf c of None \<Rightarrow> 0 | Some d \<Rightarrow> d)) 0 ds"

text \<open>The sign a numeric string may start with, and the rest.\<close>

definition signOf :: "string \<Rightarrow> int \<times> string" where
  "signOf s =
     (case s of
        [] \<Rightarrow> (1, [])
      | c # r \<Rightarrow> if c = CHR ''-'' then (-1, r) else if c = CHR ''+'' then (1, r) else (1, s))"

text \<open>
  \<open>parseInt(s)\<close> with no radix: leading white space, a sign, \<open>0x\<close> or \<open>0X\<close> for
  hexadecimal, then the longest run of digits; \<open>NaN\<close> (\<open>None\<close>) when there is no digit.
\<close>

definition parseInt :: "string \<Rightarrow> int option" where
  "parseInt s =
     (case signOf (dropWhile isSpace s) of (sign, u) \<Rightarrow>
      let hex = (take 2 u = ''0x'' \<or> take 2 u = ''0X'');
          radix = (if hex then 16 else 10);
          ds = takeWhile (isDigit radix) (if hex then drop 2 u else u)
      in if ds = [] then None else Some (sign * int (digitsValue radix ds)))"

text \<open>
  \<open>parseFloat(s)\<close> for a decimal numeral with an optional fraction (exponents and
  \<open>Infinity\<close> are left out); \<open>None\<close> is \<open>NaN\<close>.
\<close>

definition parseFloat :: "string \<Rightarrow> rat option" where
  "parseFloat s =
     (case signOf (dropWhile isSpace s) of (sign, u) \<Rightarrow>
      let ip = takeWhile (isDigit 10) u;
          rest = dropWhile (isDigit 10) u;
          fp = (case rest of [] \<Rightarrow> []
                | c # r \<Rightarrow> if c = CHR ''.'' then takeWhile (isDigit 10) r else [])
      in if ip = [] \<and> fp = [] then None
         else Some (of_int sign * (of_nat (digitsValue 10 ip)
                                    + of_nat (digitsValue 10 fp) / 10 ^ length fp)))"

text \<open>Arithmetic on numbers that may be \<open>NaN\<close>.\<close>

definition nanAdd :: "int option \<Rightarrow> int option \<Rightarrow> int option" where
  "nanAdd a b = (case (a, b) of (Some x, Some y) \<Rightarrow> Some (x + y) | _ \<Rightarrow> None)"

definition nanSub :: "int option \<Rightarrow> int option \<Rightarrow> int option" where
  "nanSub a b = (case (a, b) of (Some x, Some y) \<Rightarrow> Some (x - y) | _ \<Rightarrow> None)"

section \<open>stepToMidi and parseXMLString\<close>

text \<open>
  The table \<open>steps\<close>; a step that is not in it gives \<open>undefined\<close>, and the sum \<open>NaN\<close>
  (the names every object inherits, such as \<open>constructor\<close>, are read as not in it).
\<close>

definition steps :: "string \<Rightarrow> int option" where
  "steps = map_of [(''C'', 0), (''D'', 2), (''E'', 4), (''F'', 5), (''G'', 7), (''A'', 9), (''B'', 11)]"

definition stepToMidi :: "string \<Rightarrow> int option \<Rightarrow> int option \<Rightarrow> int option" where
  "stepToMidi st oc al =
     (case (oc, steps st, al) of
        (Some ov, Some sv, Some av) \<Rightarrow> Some ((ov + 1) * 12 + sv + av)
      | _ \<Rightarrow> None)"

text \<open>Reading a property of \<open>null\<close> throws a \<open>TypeError\<close>.\<close>

datatype jsError = TypeError

type_synonym clock = "int option \<times> int option scoreNote list"

text \<open>
  The callback of \<open>children.forEach\<close>, on \<open>currentTime\<close> and the notes of the measure:
  one child element of a \<open>measure\<close>.
\<close>

definition childStep :: "nat \<Rightarrow> node \<Rightarrow> clock \<Rightarrow> jsError + clock" where
  "childStep partIdx child acc =
     (case acc of (currentTime, pushed) \<Rightarrow>
      if hasTag ''backup'' child then
        (case querySelector ''duration'' child of
           Some d \<Rightarrow> Inr (nanSub currentTime (parseInt (textContent d)), pushed)
         | None \<Rightarrow> Inr acc)
      else if hasTag ''forward'' child then
        (case querySelector ''duration'' child of
           Some d \<Rightarrow> Inr (nanAdd currentTime (parseInt (textContent d)), pushed)
         | None \<Rightarrow> Inr acc)
      else if hasTag ''note'' child then
        (let pitch = querySelector ''pitch'' child;
             rest = querySelector ''rest'' child;
             chord = querySelector ''chord'' child;
             dur = querySelector ''duration'' child;
             noteDuration = (case dur of Some d \<Rightarrow> parseInt (textContent d) | None \<Rightarrow> Some 0)
         in case pitch of
              Some p \<Rightarrow>
                (case querySelector ''step'' p of
                   None \<Rightarrow> Inl TypeError
                 | Some stepEl \<Rightarrow>
                     (case querySelector ''octave'' p of
                        None \<Rightarrow> Inl TypeError
                      | Some octaveEl \<Rightarrow>
                          (let stp = textContent stepEl;
                               oct = parseInt (textContent octaveEl);
                               alterVal = (case querySelector ''alter'' p of
                                             Some a \<Rightarrow> parseInt (textContent a) | None \<Rightarrow> Some 0);
                               noteData = NoteData stp oct alterVal noteDuration currentTime
                                            (stepToMidi stp oct alterVal) (chord \<noteq> None) partIdx
                           in Inr (if chord = None \<and> dur \<noteq> None
                                   then nanAdd currentTime noteDuration else currentTime,
                                   pushed @ [noteData]))))
            | None \<Rightarrow>
                if rest \<noteq> None \<and> dur \<noteq> None
                then Inr (nanAdd currentTime noteDuration,
                          pushed @ [RestData noteDuration currentTime partIdx])
                else Inr acc)
      else Inr acc)"

text \<open>\<open>children.forEach\<close>: an exception leaves the loop, and every loop around it.\<close>

fun childrenLoop :: "nat \<Rightarrow> node list \<Rightarrow> clock \<Rightarrow> jsError + clock" where
  "childrenLoop partIdx [] acc = Inr acc"
| "childrenLoop partIdx (c # cs) acc =
     (case childStep partIdx c acc of
        Inl e \<Rightarrow> Inl e
      | Inr acc' \<Rightarrow> childrenLoop partIdx cs acc')"

text \<open>
  \<open>measures.forEach((measure, mIdx) => ...)\<close> of one part: \<open>currentTime\<close> starts at 0 in
  every measure, and the notes go to \<open>scoreData.measures[mIdx].notes\<close>. (\<open>mIdx\<close> is below
  the length of \<open>scoreData.measures\<close>, which is the largest measure count of a part.)
\<close>

fun measuresLoop ::
  "nat \<Rightarrow> nat \<Rightarrow> node list \<Rightarrow> int option scoreMeasure list
     \<Rightarrow> jsError + int option scoreMeasure list" where
  "measuresLoop partIdx mIdx [] ms = Inr ms"
| "measuresLoop partIdx mIdx (m # rest) ms =
     (if mIdx < length ms
      then (case childrenLoop partIdx (children m) (Some 0, m_notes (ms ! mIdx)) of
              Inl e \<Rightarrow> Inl e
            | Inr (t, pushed) \<Rightarrow>
                measuresLoop partIdx (Suc mIdx) rest (ms[mIdx := (ms ! mIdx)\<lparr>m_notes := pushed\<rparr>]))
      else Inl TypeError)"

fun partsLoop ::
  "nat \<Rightarrow> node list \<Rightarrow> int option scoreMeasure list \<Rightarrow> jsError + int option scoreMeasure list" where
  "partsLoop partIdx [] ms = Inr ms"
| "partsLoop partIdx (p # ps) ms =
     (case measuresLoop partIdx 0 (querySelectorAll ''measure'' p) ms of
        Inl e \<Rightarrow> Inl e
      | Inr ms' \<Rightarrow> partsLoop (Suc partIdx) ps ms')"

text \<open>The number an optional element holds, or the default.\<close>

definition intOr :: "int option \<Rightarrow> node option \<Rightarrow> int option" where
  "intOr dflt el = (case el of None \<Rightarrow> dflt | Some e \<Rightarrow> parseInt (textContent e))"

text \<open>
  \<open>60000000 / bpm\<close>: \<open>None\<close> when the quotient is not a finite number (\<open>bpm\<close> is \<open>NaN\<close>
  or 0).
\<close>

definition tempoOf :: "node \<Rightarrow> rat option" where
  "tempoOf sound =
     (case getAttribute ''tempo'' sound of
        None \<Rightarrow> None
      | Some a \<Rightarrow>
          (case parseFloat a of
             None \<Rightarrow> None
           | Some bpm \<Rightarrow> if bpm = 0 then None else Some (60000000 / bpm)))"

definition emptyMeasures :: "nat \<Rightarrow> int option scoreMeasure list" where
  "emptyMeasures maxMeasures =
     map (\<lambda>i. \<lparr>m_number = i + 1, m_notes = [], m_width = 200\<rparr>) [0..<maxMeasures]"

text \<open>
  \<open>parseXMLString\<close>, from the parsed document on. The result is the exception thrown
  (\<open>Inl\<close>), \<open>null\<close> (\<open>Inr None\<close>, for a document that holds a \<open>parsererror\<close>), or the score.
\<close>

definition parseXMLString ::
  "node \<Rightarrow> jsError + (int option, rat option) scoreData option" where
  "parseXMLString xmlDoc =
     (if docSelector ''parsererror'' xmlDoc \<noteq> None then Inr None
      else
        (let tempo0 = (case soundWithTempo xmlDoc of None \<Rightarrow> Some 500000 | Some s \<Rightarrow> tempoOf s);
             fa = measureAttributes xmlDoc;
             divisions0 = (case fa of None \<Rightarrow> Some 1
                           | Some a \<Rightarrow> intOr (Some 1) (querySelector ''divisions'' a));
             fifths0 = (case fa of None \<Rightarrow> Some 0
                        | Some a \<Rightarrow>
                            (case querySelector ''key'' a of None \<Rightarrow> Some 0
                             | Some k \<Rightarrow> intOr (Some 0) (querySelector ''fifths'' k)));
             time0 = (case fa of None \<Rightarrow> None | Some a \<Rightarrow> querySelector ''time'' a);
             beats0 = (case time0 of None \<Rightarrow> Some 4
                       | Some t \<Rightarrow> intOr (Some 4) (querySelector ''beats'' t));
             beatType0 = (case time0 of None \<Rightarrow> Some 4
                          | Some t \<Rightarrow> intOr (Some 4) (querySelector ''beat-type'' t));
             parts = docSelectorAll ''part'' xmlDoc;
             maxMeasures = foldl (\<lambda>m p. max m (length (querySelectorAll ''measure'' p))) 0 parts
         in case partsLoop 0 parts (emptyMeasures maxMeasures) of
              Inl e \<Rightarrow> Inl e
            | Inr ms \<Rightarrow>
                Inr (Some \<lparr>measures = ms, divisions = divisions0, fifths = fifths0,
                           beats = beats0, beatType = beatType0, tempo = tempo0\<rparr>)))"

section \<open>convertToMIDI\<close>

text \<open>An entry of \<open>allNotes\<close>, a MIDI event, a note pair, and the returned object.\<close>

record absNote =
  a_midiNote :: int
  a_startTime :: rat
  a_endTime :: rat
  a_duration :: int

record midiEvent =
  e_time :: rat
  e_data :: "int list"

record notePair =
  p_note :: int
  p_start :: rat
  p_end :: rat

record midiResult =
  midiEvents :: "midiEvent list"
  notePairs :: "notePair list"
  totalDuration :: rat

text \<open>\<open>!note.isRest && note.midiNote\<close>: a rest, a \<open>NaN\<close> pitch and the pitch 0 are all falsy.\<close>

fun sounding :: "'n scoreNote \<Rightarrow> int option" where
  "sounding (NoteData s oc al d t (Some m) c p) = (if m \<noteq> 0 then Some m else None)"
| "sounding (NoteData s oc al d t None c p) = None"
| "sounding (RestData d t p) = None"

text \<open>The body of the inner \<open>forEach\<close>: nothing is pushed for a note that is not sounding.\<close>

definition absolute :: "rat \<Rightarrow> rat \<Rightarrow> int scoreNote \<Rightarrow> absNote list" where
  "absolute measureStartTime msPerDivision note =
     (case sounding note of
        None \<Rightarrow> []
      | Some m \<Rightarrow>
          (let startTime = measureStartTime + of_int (time note) * msPerDivision;
               dur = of_int (duration note) * msPerDivision;
               endTime = startTime + dur
           in [\<lparr>a_midiNote = m, a_startTime = startTime,
                a_endTime = endTime, a_duration = duration note\<rparr>]))"

text \<open>The two nested \<open>forEach\<close> loops that fill \<open>allNotes\<close>; \<open>measureIdx\<close> counts from 0.\<close>

fun measureNotes :: "rat \<Rightarrow> rat \<Rightarrow> nat \<Rightarrow> int scoreMeasure list \<Rightarrow> absNote list" where
  "measureNotes msPerMeasure msPerDivision measureIdx [] = []"
| "measureNotes msPerMeasure msPerDivision measureIdx (m # ms) =
     concat (map (absolute (of_nat measureIdx * msPerMeasure) msPerDivision) (m_notes m))
     @ measureNotes msPerMeasure msPerDivision (Suc measureIdx) ms"

definition msPerDivision :: "(int, rat) scoreData \<Rightarrow> rat" where
  "msPerDivision sd = (tempo sd / 1000) / of_int (divisions sd)"

definition msPerMeasure :: "(int, rat) scoreData \<Rightarrow> rat" where
  "msPerMeasure sd =
     (of_int (beats sd * divisions sd * 4) / of_int (beatType sd)) * msPerDivision sd"

definition allNotes :: "(int, rat) scoreData \<Rightarrow> absNote list" where
  "allNotes sd = measureNotes (msPerMeasure sd) (msPerDivision sd) 0 (measures sd)"

text \<open>
  A JavaScript \<open>Map\<close> keeps its keys in insertion order, and \<open>set\<close> on a key already
  present keeps the key's place: an association list with update in place.
\<close>

fun map_set :: "'k \<Rightarrow> 'v \<Rightarrow> ('k \<times> 'v) list \<Rightarrow> ('k \<times> 'v) list" where
  "map_set k v [] = [(k, v)]"
| "map_set k v (p # ps) = (if fst p = k then (k, v) # ps else p # map_set k v ps)"

text \<open>\<open>Math.round\<close> rounds to the nearest integer, a half towards \<open>+\<infinity>\<close>.\<close>

definition js_round :: "rat \<Rightarrow> int" where
  "js_round x = \<lfloor>x + 1 / 2\<rfloor>"

definition timeKey :: "absNote \<Rightarrow> rat" where
  "timeKey note = of_int (js_round (a_startTime note * 100)) / 100"

type_synonym notesByTime = "(rat \<times> (int \<times> absNote) list) list"

definition dedupStep :: "absNote \<Rightarrow> notesByTime \<Rightarrow> notesByTime" where
  "dedupStep note byTime =
     (let byTime1 = (if map_of byTime (timeKey note) = None
                     then map_set (timeKey note) [] byTime else byTime);
          notesAtTime = (case map_of byTime1 (timeKey note) of Some m \<Rightarrow> m | None \<Rightarrow> []);
          midiKey = a_midiNote note
      in map_set (timeKey note)
           (case map_of notesAtTime midiKey of
              None \<Rightarrow> map_set midiKey note notesAtTime
            | Some existing \<Rightarrow>
                if a_duration note > a_duration existing
                then map_set midiKey note notesAtTime else notesAtTime)
           byTime1)"

definition dedup :: "absNote list \<Rightarrow> notesByTime" where
  "dedup ns = fold dedupStep ns []"

text \<open>The notes the two nested \<open>forEach\<close> loops over the maps visit, in that order.\<close>

definition survivors :: "absNote list \<Rightarrow> absNote list" where
  "survivors ns = concat (map (\<lambda>entry. map snd (snd entry)) (dedup ns))"

definition noteOn :: "absNote \<Rightarrow> midiEvent" where
  "noteOn note = \<lparr>e_time = a_startTime note, e_data = [0x90, a_midiNote note, 100]\<rparr>"

definition noteOff :: "absNote \<Rightarrow> midiEvent" where
  "noteOff note = \<lparr>e_time = a_endTime note, e_data = [0x80, a_midiNote note, 0]\<rparr>"

definition pairOf :: "absNote \<Rightarrow> notePair" where
  "pairOf note = \<lparr>p_note = a_midiNote note, p_start = a_startTime note, p_end = a_endTime note\<rparr>"

text \<open>
  Lines 538 to 605 of \<open>convertToMIDI\<close>: deduplicate, emit, sort by time (the sort of
  \<open>Array.prototype.sort\<close> is stable, as \<open>sort_key\<close> is), take the last time.
\<close>

definition mergeNotes :: "absNote list \<Rightarrow> midiResult" where
  "mergeNotes ns =
     (let kept = survivors ns;
          events = sort_key e_time (concat (map (\<lambda>n. [noteOn n, noteOff n]) kept))
      in \<lparr>midiEvents = events, notePairs = map pairOf kept,
          totalDuration = (if events = [] then 0 else e_time (last events))\<rparr>)"

text \<open>\<open>None\<close> is a \<open>null\<close> score (the guard at the top of the function).\<close>

definition convertToMIDI :: "(int, rat) scoreData option \<Rightarrow> midiResult" where
  "convertToMIDI scoreData =
     (case scoreData of
        None \<Rightarrow> \<lparr>midiEvents = [], notePairs = [], totalDuration = 0\<rparr>
      | Some sd \<Rightarrow> mergeNotes (allNotes sd))"

section \<open>parseMidiFile\<close>

text \<open>
  The file's bytes are a \<open>Uint8Array\<close>. Reading it at any index outside the array gives
  \<open>undefined\<close> (\<open>None\<close>), which a bit operation reads as 0; the bit operations themselves
  work on 32-bit integers and their result is signed.
\<close>

type_synonym byte = "8 word"

definition byteAt :: "byte list \<Rightarrow> int \<Rightarrow> byte option" where
  "byteAt data pos = (if 0 \<le> pos \<and> pos < int (length data) then Some (data ! nat pos) else None)"

definition toInt32 :: "byte option \<Rightarrow> 32 word" where
  "toInt32 b = (case b of None \<Rightarrow> 0 | Some x \<Rightarrow> ucast x)"

text \<open>\<open>slice(start, end)\<close> of a typed array: a negative index counts from the end.\<close>

definition js_slice :: "'a list \<Rightarrow> int \<Rightarrow> int \<Rightarrow> 'a list" where
  "js_slice xs start stop =
     (let len = int (length xs);
          first = (if start < 0 then max (len + start) 0 else min start len);
          final = (if stop < 0 then max (len + stop) 0 else min stop len)
      in take (nat (final - first)) (drop (nat first) xs))"

text \<open>Each reader returns its value and the new \<open>pos\<close>.\<close>

definition readStr :: "byte list \<Rightarrow> int \<Rightarrow> int \<Rightarrow> string \<times> int" where
  "readStr data pos len = (map (\<lambda>b. char_of (unat b)) (js_slice data pos (pos + len)), pos + len)"

definition read32 :: "byte list \<Rightarrow> int \<Rightarrow> int \<times> int" where
  "read32 data pos =
     (sint (push_bit 24 (toInt32 (byteAt data pos)) OR push_bit 16 (toInt32 (byteAt data (pos + 1)))
            OR push_bit 8 (toInt32 (byteAt data (pos + 2))) OR toInt32 (byteAt data (pos + 3))),
      pos + 4)"

definition read16 :: "byte list \<Rightarrow> int \<Rightarrow> int \<times> int" where
  "read16 data pos =
     (sint (push_bit 8 (toInt32 (byteAt data pos)) OR toInt32 (byteAt data (pos + 1))), pos + 2)"

text \<open>
  The \<open>while (true)\<close> loop of \<open>readVar\<close>, with \<open>v\<close> as its accumulator. It ends at the
  first byte without the high bit, and a read past the array is such a byte.
\<close>

function readVarLoop :: "byte list \<Rightarrow> int \<Rightarrow> 32 word \<Rightarrow> 32 word \<times> int" where
  "readVarLoop data pos v =
     (if toInt32 (byteAt data pos) AND 0x80 = 0
      then (push_bit 7 v OR (toInt32 (byteAt data pos) AND 0x7f), pos + 1)
      else readVarLoop data (pos + 1) (push_bit 7 v OR (toInt32 (byteAt data pos) AND 0x7f)))"
  by pat_completeness auto
termination
  by (relation "measure (\<lambda>(data, pos, v). nat (int (length data) - pos))")
     (auto simp: byteAt_def toInt32_def split: if_splits)

definition readVar :: "byte list \<Rightarrow> int \<Rightarrow> int \<times> int" where
  "readVar data pos = (case readVarLoop data pos 0 of (v, pos') \<Rightarrow> (sint v, pos'))"

record rawEvent =
  r_tick :: int
  r_data :: "byte option \<times> byte option \<times> byte option"

record tempoEntry =
  t_tick :: int
  t_ms :: rat
  t_tempo :: int

text \<open>
  What the track loop changes: \<open>pos\<close>, the track's \<open>curTick\<close> and running status \<open>rs\<close>
  (\<open>None\<close> is \<open>null\<close>), the events and the tempo map.
\<close>

record parseState =
  pos :: int
  curTick :: int
  rs :: "byte option"
  events :: "rawEvent list"
  tempoMap :: "tempoEntry list"

text \<open>One turn of \<open>while (pos < end)\<close>.\<close>

definition eventStep :: "byte list \<Rightarrow> parseState \<Rightarrow> parseState" where
  "eventStep data st =
     (case readVar data (pos st) of (delta, pos1) \<Rightarrow>
      let tick = curTick st + delta;
          s0 = byteAt data pos1;
          running = (toInt32 s0 AND 0x80 = 0);
          s = (if running then rs st else s0);
          pos2 = (if running then pos1 else pos1 + 1);
          st1 = st\<lparr>curTick := tick, rs := s\<rparr>;
          type = toInt32 s AND 0xf0
      in if type = 0x80 \<or> type = 0x90
         then st1\<lparr>pos := pos2 + 2,
                  events := events st @
                    [\<lparr>r_tick = tick, r_data = (s, byteAt data pos2, byteAt data (pos2 + 1))\<rparr>]\<rparr>
         else if s = Some 0xFF
         then (let m = byteAt data pos2 in
               case readVar data (pos2 + 1) of (ml, pos3) \<Rightarrow>
                 st1\<lparr>pos := pos3 + ml,
                     tempoMap :=
                       (if m = Some 0x51
                        then tempoMap st @
                          [\<lparr>t_tick = tick, t_ms = 0,
                            t_tempo = sint (push_bit 16 (toInt32 (byteAt data pos3))
                                            OR push_bit 8 (toInt32 (byteAt data (pos3 + 1)))
                                            OR toInt32 (byteAt data (pos3 + 2)))\<rparr>]
                        else tempoMap st)\<rparr>)
         else if type = 0xB0 \<or> type = 0xE0 then st1\<lparr>pos := pos2 + 2\<rparr>
         else if type = 0xC0 \<or> type = 0xD0 then st1\<lparr>pos := pos2 + 1\<rparr>
         else st1\<lparr>pos := pos2\<rparr>)"

text \<open>
  The loop over a track's events need not end (a negative length moves \<open>pos\<close> back), so
  it takes fuel: \<open>None\<close> when the fuel runs out before \<open>pos\<close> reaches \<open>end\<close>.
\<close>

fun trackLoop :: "nat \<Rightarrow> byte list \<Rightarrow> int \<Rightarrow> parseState \<Rightarrow> parseState option" where
  "trackLoop 0 data stop st = (if pos st < stop then None else Some st)"
| "trackLoop (Suc fuel) data stop st =
     (if pos st < stop then trackLoop fuel data stop (eventStep data st) else Some st)"

text \<open>\<open>for (let i = 0; i < tracks; i++)\<close>, counted down; \<open>break\<close> at a chunk that is not \<open>MTrk\<close>.\<close>

fun tracksLoop :: "nat \<Rightarrow> nat \<Rightarrow> byte list \<Rightarrow> parseState \<Rightarrow> parseState option" where
  "tracksLoop fuel 0 data st = Some st"
| "tracksLoop fuel (Suc k) data st =
     (case readStr data (pos st) 4 of (sig, pos1) \<Rightarrow>
      if sig \<noteq> ''MTrk'' then Some (st\<lparr>pos := pos1\<rparr>)
      else (case read32 data pos1 of (len, pos2) \<Rightarrow>
        (case trackLoop fuel data (pos2 + len) (st\<lparr>pos := pos2, curTick := 0, rs := None\<rparr>) of
           None \<Rightarrow> None
         | Some st' \<Rightarrow> tracksLoop fuel k data st')))"

text \<open>The \<open>forEach\<close> that writes each tempo entry's \<open>ms\<close>; \<open>lastT\<close> starts as the first entry.\<close>

fun cumulativeMs :: "int \<Rightarrow> tempoEntry \<Rightarrow> rat \<Rightarrow> tempoEntry list \<Rightarrow> tempoEntry list" where
  "cumulativeMs dv lastT curMs [] = []"
| "cumulativeMs dv lastT curMs (tm # tms) =
     (let curMs' = curMs + (of_int (t_tick tm - t_tick lastT) / of_int dv)
                            * (of_int (t_tempo lastT) / 1000)
      in tm\<lparr>t_ms := curMs'\<rparr> # cumulativeMs dv (tm\<lparr>t_ms := curMs'\<rparr>) curMs' tms)"

text \<open>The \<open>for ... of\<close> scan for the tempo in force at a tick, with its \<open>break\<close>.\<close>

fun activeTempo :: "tempoEntry \<Rightarrow> int \<Rightarrow> tempoEntry list \<Rightarrow> tempoEntry" where
  "activeTempo act tk [] = act"
| "activeTempo act tk (t # ts) = (if t_tick t \<le> tk then activeTempo t tk ts else act)"

record timedEvent =
  f_tick :: int
  f_data :: "byte option \<times> byte option \<times> byte option"
  f_time :: rat

definition eventTime :: "int \<Rightarrow> tempoEntry list \<Rightarrow> rawEvent \<Rightarrow> timedEvent" where
  "eventTime dv tmap ev =
     (let act = (case tmap of [] \<Rightarrow> \<lparr>t_tick = 0, t_ms = 0, t_tempo = 500000\<rparr>
                 | t0 # ts \<Rightarrow> activeTempo t0 (r_tick ev) tmap)
      in \<lparr>f_tick = r_tick ev, f_data = r_data ev,
          f_time = t_ms act + (of_int (r_tick ev - t_tick act) / of_int dv)
                              * (of_int (t_tempo act) / 1000)\<rparr>)"

record filePair =
  q_note :: "byte option"
  q_start :: rat
  q_end :: rat

text \<open>The last \<open>forEach\<close>: \<open>tempNotes\<close> maps a note to the time it went on.\<close>

fun pairUp :: "(byte option \<rightharpoonup> rat) \<Rightarrow> timedEvent list \<Rightarrow> filePair list" where
  "pairUp tempNotes [] = []"
| "pairUp tempNotes (ev # evs) =
     (case f_data ev of (status, note, vel) \<Rightarrow>
      if toInt32 status AND 0xF0 = 0x90 \<and> (case vel of Some x \<Rightarrow> x > 0 | None \<Rightarrow> False)
      then pairUp (tempNotes(note \<mapsto> f_time ev)) evs
      else if toInt32 status AND 0xF0 = 0x80 \<or> (toInt32 status AND 0xF0 = 0x90 \<and> vel = Some 0)
      then (case tempNotes note of
              Some started \<Rightarrow>
                \<lparr>q_note = note, q_start = started, q_end = f_time ev\<rparr>
                # pairUp (tempNotes(note := None)) evs
            | None \<Rightarrow> pairUp tempNotes evs)
      else pairUp tempNotes evs)"

text \<open>
  The globals \<open>parseMidiFile\<close> writes, itself or through \<open>clearCurrentFile\<close> (which
  also resets the player and the page, left out here). \<open>log\<close> replaces the text of the
  one console line, so \<open>consoleOut\<close> is the last message logged.
\<close>

record app =
  g_midiEvents :: "timedEvent list"
  g_notePairs :: "filePair list"
  g_nextEventIndex :: nat
  g_totalDuration :: rat
  g_currentTimeOffset :: rat
  consoleOut :: string

definition clearCurrentFile :: "app \<Rightarrow> app" where
  "clearCurrentFile g =
     g\<lparr>g_midiEvents := [], g_notePairs := [], g_nextEventIndex := 0, g_totalDuration := 0,
       g_currentTimeOffset := 0, consoleOut := ''Previous file cleared.''\<rparr>"

text \<open>
  The part of \<open>parseMidiFile\<close> after the tracks are read: sort both lists by tick
  (stable), give every tempo entry its \<open>ms\<close>, every event its \<open>time\<close>.
\<close>

definition timeEvents :: "int \<Rightarrow> parseState \<Rightarrow> timedEvent list" where
  "timeEvents dv st =
     (let tmap = sort_key t_tick (tempoMap st);
          evs = sort_key r_tick (events st);
          tmap' = (case tmap of [] \<Rightarrow> [] | t0 # ts \<Rightarrow> cumulativeMs dv t0 0 tmap)
      in map (eventTime dv tmap') evs)"

text \<open>The header after the magic: skip the length, skip the format, read \<open>tracks\<close> and \<open>div\<close>.\<close>

definition readHeader :: "byte list \<Rightarrow> int \<Rightarrow> int \<times> int \<times> int" where
  "readHeader data pos0 =
     (let tracks = read16 data (snd (read16 data (pos0 + 4)));
          dv = read16 data (snd tracks)
      in (fst tracks, fst dv, snd dv))"

text \<open>
  \<open>parseMidiFile\<close> on the bytes of the chosen file (\<open>None\<close>: no file was chosen). The
  result is the globals when the function returns; \<open>None\<close> means the given fuel did not
  take a track loop to its end. The function has no other result: it returns
  \<open>undefined\<close> on every path and has no \<open>throw\<close>.
\<close>

definition parseMidiFile :: "nat \<Rightarrow> byte list option \<Rightarrow> app \<Rightarrow> app option" where
  "parseMidiFile fuel file g =
     (case file of
        None \<Rightarrow> Some g
      | Some data \<Rightarrow>
          (let g1 = (clearCurrentFile g)\<lparr>g_midiEvents := [], g_nextEventIndex := 0\<rparr>;
               tempoMap0 = [\<lparr>t_tick = 0, t_ms = 0, t_tempo = 500000\<rparr>];
               magic = readStr data 0 4
           in if fst magic \<noteq> ''MThd'' then Some g1
              else (case readHeader data (snd magic) of (tracks, dv, pos1) \<Rightarrow>
                    (case tracksLoop fuel (nat tracks) data
                            \<lparr>pos = pos1, curTick = 0, rs = None, events = [],
                             tempoMap = tempoMap0\<rparr> of
                       None \<Rightarrow> None
                     | Some st \<Rightarrow>
                         Some (g1\<lparr>g_midiEvents := timeEvents dv st,
                                  g_totalDuration :=
                                    (if timeEvents dv st = [] then 0
                                     else f_time (last (timeEvents dv st))),
                                  consoleOut := ''File Ready.'',
                                  g_notePairs := pairUp Map.empty (timeEvents dv st)\<rparr>)))))"

section \<open>extractMXLFallback\<close>

text \<open>
  A JavaScript string is a list of UTF-16 code units. \<open>decodeText\<close> decodes UTF-8 with
  the platform's \<open>TextDecoder\<close>, which never fails on bytes (a malformed sequence
  becomes U+FFFD, a leading byte order mark is dropped); its \<open>catch\<close> branch, one
  character per byte, runs when there is no \<open>TextDecoder\<close> to construct.
\<close>

type_synonym jsString = "nat list"

definition str :: "string \<Rightarrow> jsString" where
  "str s = map of_char s"

definition toUtf16 :: "nat \<Rightarrow> jsString" where
  "toUtf16 cp =
     (if cp < 0x10000 then [cp]
      else [0xD800 + (cp - 0x10000) div 0x400, 0xDC00 + (cp - 0x10000) mod 0x400])"

text \<open>
  The UTF-8 decoder: \<open>need\<close> continuation bytes are still to come for the code point
  \<open>cp\<close>, and the next of them must lie between \<open>lo\<close> and \<open>hi\<close>. A byte that does not
  fit ends the sequence with U+FFFD and is read again as a first byte.
\<close>

fun utf8Decode :: "nat \<Rightarrow> nat \<Rightarrow> nat \<Rightarrow> nat \<Rightarrow> byte list \<Rightarrow> jsString" where
  "utf8Decode need cp lo hi [] = (if need = 0 then [] else [0xFFFD])"
| "utf8Decode need cp lo hi (b # bs) =
     (if need = 0 then
        (if unat b < 0x80 then unat b # utf8Decode 0 0 0x80 0xBF bs
         else if 0xC2 \<le> unat b \<and> unat b \<le> 0xDF
           then utf8Decode 1 (unat b mod 32) 0x80 0xBF bs
         else if 0xE0 \<le> unat b \<and> unat b \<le> 0xEF
           then utf8Decode 2 (unat b mod 16) (if unat b = 0xE0 then 0xA0 else 0x80)
                  (if unat b = 0xED then 0x9F else 0xBF) bs
         else if 0xF0 \<le> unat b \<and> unat b \<le> 0xF4
           then utf8Decode 3 (unat b mod 8) (if unat b = 0xF0 then 0x90 else 0x80)
                  (if unat b = 0xF4 then 0x8F else 0xBF) bs
         else 0xFFFD # utf8Decode 0 0 0x80 0xBF bs)
      else if unat b < lo \<or> hi < unat b then 0xFFFD # utf8Decode 0 0 0x80 0xBF (b # bs)
      else if need = 1 then toUtf16 (cp * 64 + unat b mod 64) @ utf8Decode 0 0 0x80 0xBF bs
      else utf8Decode (need - 1) (cp * 64 + unat b mod 64) 0x80 0xBF bs)"

definition decodeText :: "bool \<Rightarrow> byte list \<Rightarrow> jsString" where
  "decodeText hasTextDecoder data =
     (if hasTextDecoder
      then utf8Decode 0 0 0x80 0xBF (if take 3 data = [0xEF, 0xBB, 0xBF] then drop 3 data else data)
      else map unat data)"

text \<open>\<open>text.indexOf(pat)\<close>: where \<open>pat\<close> first occurs; \<open>None\<close> is \<open>-1\<close>.\<close>

fun indexOf :: "'a list \<Rightarrow> 'a list \<Rightarrow> nat option" where
  "indexOf pat [] = (if pat = [] then Some 0 else None)"
| "indexOf pat (x # xs) =
     (if prefix pat (x # xs) then Some 0 else map_option Suc (indexOf pat xs))"

definition endTag :: jsString where
  "endTag = str ''</score-partwise>''"

definition endTag2 :: jsString where
  "endTag2 = str ''</score-timewise>''"

text \<open>The five bytes of \<open><?xml\<close> at index \<open>i\<close>.\<close>

definition prologAt :: "byte list \<Rightarrow> nat \<Rightarrow> bool" where
  "prologAt zipData i \<longleftrightarrow>
     byteAt zipData (int i) = Some 0x3C \<and> byteAt zipData (int i + 1) = Some 0x3F \<and>
     byteAt zipData (int i + 2) = Some 0x78 \<and> byteAt zipData (int i + 3) = Some 0x6D \<and>
     byteAt zipData (int i + 4) = Some 0x6C"

text \<open>The text decoded at a match: at most 5000000 bytes from \<open>i\<close> on.\<close>

definition window :: "bool \<Rightarrow> byte list \<Rightarrow> nat \<Rightarrow> jsString" where
  "window td zipData i =
     (let maxLength = min (int (length zipData) - int i) 5000000
      in decodeText td (js_slice zipData (int i) (int i + maxLength)))"

text \<open>\<open>endIdx\<close>: the first \<open></score-partwise>\<close>, or with none of these the first \<open></score-timewise>\<close>.\<close>

definition endIdx :: "jsString \<Rightarrow> nat option" where
  "endIdx xmlContent =
     (case indexOf endTag xmlContent of Some k \<Rightarrow> Some k | None \<Rightarrow> indexOf endTag2 xmlContent)"

text \<open>The \<open>for\<close> loop from \<open>i\<close> on; \<open>None\<close> is the \<open>null\<close> returned after the loop.\<close>

function scanFrom :: "bool \<Rightarrow> byte list \<Rightarrow> nat \<Rightarrow> jsString option" where
  "scanFrom td zipData i =
     (if int i < int (length zipData) - 5
      then (if prologAt zipData i \<and> endIdx (window td zipData i) \<noteq> None
            then map_option (\<lambda>k. take (k + length endTag) (window td zipData i))
                   (endIdx (window td zipData i))
            else scanFrom td zipData (Suc i))
      else None)"
  by pat_completeness auto
termination
  by (relation "measure (\<lambda>(td, zipData, i). length zipData - i)") auto

definition extractMXLFallback :: "bool \<Rightarrow> byte list \<Rightarrow> jsString option" where
  "extractMXLFallback td zipData = scanFrom td zipData 0"

section \<open>From the parser to the converter\<close>

text \<open>
  The score \<open>parseXMLString\<close> returns is the argument of \<open>convertToMIDI\<close>. The
  converter is modelled where every number of the score is finite: \<open>finiteScore\<close>
  reads the parser's result as such a score, and is \<open>None\<close> when a number of it is not
  finite (a pitch that is \<open>NaN\<close> stays, the converter drops such a note).
\<close>

fun finiteNote :: "int option scoreNote \<Rightarrow> int scoreNote option" where
  "finiteNote (NoteData s (Some oc) (Some al) (Some d) (Some t) m c p) =
     Some (NoteData s oc al d t m c p)"
| "finiteNote (RestData (Some d) (Some t) p) = Some (RestData d t p)"
| "finiteNote n = None"

definition finiteMeasure :: "int option scoreMeasure \<Rightarrow> int scoreMeasure option" where
  "finiteMeasure m =
     (if list_all (\<lambda>n. finiteNote n \<noteq> None) (m_notes m)
      then Some \<lparr>m_number = m_number m, m_notes = List.map_filter finiteNote (m_notes m),
                 m_width = m_width m\<rparr>
      else None)"

definition finiteScore :: "(int option, rat option) scoreData \<Rightarrow> (int, rat) scoreData option" where
  "finiteScore sd =
     (case (divisions sd, fifths sd, beats sd, beatType sd, tempo sd) of
        (Some dv, Some fi, Some be, Some bt, Some te) \<Rightarrow>
          if list_all (\<lambda>m. finiteMeasure m \<noteq> None) (measures sd)
          then Some \<lparr>measures = List.map_filter finiteMeasure (measures sd), divisions = dv,
                     fifths = fi, beats = be, beatType = bt, tempo = te\<rparr>
          else None
      | _ \<Rightarrow> None)"

text \<open>Parse, then convert, as \<open>parseXMLFile\<close> does; \<open>None\<close> where the model does not reach.\<close>

definition parseAndConvert :: "node \<Rightarrow> midiResult option" where
  "parseAndConvert xmlDoc =
     (case parseXMLString xmlDoc of
        Inr (Some sd) \<Rightarrow> map_option (\<lambda>fs. convertToMIDI (Some fs)) (finiteScore sd)
      | _ \<Rightarrow> None)"

section \<open>Notions used in the statements\<close>

subsection \<open>Deduplication\<close>

text \<open>The pair the two nested maps are keyed by, and the notes of a map in visiting order.\<close>

definition groupKey :: "absNote \<Rightarrow> rat \<times> int" where
  "groupKey n = (timeKey n, a_midiNote n)"

definition flatten :: "notesByTime \<Rightarrow> absNote list" where
  "flatten byTime = concat (map (\<lambda>entry. map snd (snd entry)) byTime)"

definition lookup2 :: "notesByTime \<Rightarrow> rat \<times> int \<Rightarrow> absNote option" where
  "lookup2 byTime k =
     (case map_of byTime (fst k) of None \<Rightarrow> None | Some inner \<Rightarrow> map_of inner (snd k))"

text \<open>The same replacement rule on one flat map, and the note it keeps for each key.\<close>

definition keepStep ::
  "absNote \<Rightarrow> (rat \<times> int \<Rightarrow> absNote option) \<Rightarrow> (rat \<times> int \<Rightarrow> absNote option)" where
  "keepStep x f =
     f(groupKey x \<mapsto>
        (case f (groupKey x) of
           None \<Rightarrow> x
         | Some e \<Rightarrow> if a_duration x > a_duration e then x else e))"

definition keeps :: "absNote list \<Rightarrow> rat \<times> int \<Rightarrow> absNote option" where
  "keeps xs = fold keepStep xs Map.empty"

definition innerStep :: "absNote \<Rightarrow> (int \<times> absNote) list \<Rightarrow> (int \<times> absNote) list" where
  "innerStep x inner =
     (case map_of inner (a_midiNote x) of
        None \<Rightarrow> map_set (a_midiNote x) x inner
      | Some existing \<Rightarrow>
          if a_duration x > a_duration existing
          then map_set (a_midiNote x) x inner else inner)"

text \<open>
  What every map built by \<open>dedupStep\<close> satisfies: no key twice, no inner map empty, and
  every note filed under its own keys.
\<close>

definition wfInner :: "rat \<Rightarrow> (int \<times> absNote) list \<Rightarrow> bool" where
  "wfInner tk inner \<longleftrightarrow>
     inner \<noteq> [] \<and> distinct (map fst inner) \<and>
     list_all (\<lambda>e. timeKey (snd e) = tk \<and> a_midiNote (snd e) = fst e) inner"

definition wfMap :: "notesByTime \<Rightarrow> bool" where
  "wfMap M \<longleftrightarrow>
     distinct (map fst M) \<and> list_all (\<lambda>entry. wfInner (fst entry) (snd entry)) M"

subsection \<open>Variable-length quantities\<close>

text \<open>
  The encoder, as the MIDI file format defines it: the number in groups of 7 bits, the
  most significant group first, the high bit set on every byte but the last.
  \<open>vlqHigh\<close> gives the bytes that carry the high bit.
\<close>

fun vlqHigh :: "nat \<Rightarrow> byte list" where
  "vlqHigh n = (if n = 0 then [] else vlqHigh (n div 128) @ [of_nat (n mod 128) OR 0x80])"

definition vlqEncode :: "nat \<Rightarrow> byte list" where
  "vlqEncode n = vlqHigh (n div 128) @ [of_nat (n mod 128)]"

subsection \<open>Bytes and text\<close>

definition bytesOf :: "string \<Rightarrow> byte list" where
  "bytesOf s = map (\<lambda>c. of_nat (of_char c)) s"

definition isAscii :: "byte \<Rightarrow> bool" where
  "isAscii b \<longleftrightarrow> unat b < 0x80"

definition xmlProlog :: "byte list" where
  "xmlProlog = [0x3C, 0x3F, 0x78, 0x6D, 0x6C]"

definition smfMagic :: "byte list" where
  "smfMagic = [0x4D, 0x54, 0x68, 0x64]"

section \<open>Example inputs\<close>

text \<open>
  One part, one measure in 4/4 with 1 division to the quarter at 120 beats a minute:
  C4, a quarter rest, E4.
\<close>

definition exampleA :: "(int, rat) scoreData" where
  "exampleA =
     \<lparr>measures =
        [\<lparr>m_number = 1,
          m_notes = [NoteData ''C'' 4 0 1 0 (Some 60) False 0, RestData 1 1 0,
                     NoteData ''E'' 4 0 1 2 (Some 64) False 0],
          m_width = 200\<rparr>],
      divisions = 1, fifths = 0, beats = 4, beatType = 4, tempo = 500000\<rparr>"

text \<open>The same measure with C at octave -1 (MIDI pitch 0) in front.\<close>

definition pitchZeroScore :: "(int, rat) scoreData" where
  "pitchZeroScore =
     \<lparr>measures =
        [\<lparr>m_number = 1,
          m_notes = [NoteData ''C'' (- 1) 0 1 0 (Some 0) False 0,
                     NoteData ''C'' 4 0 1 1 (Some 60) False 0],
          m_width = 200\<rparr>],
      divisions = 1, fifths = 0, beats = 4, beatType = 4, tempo = 500000\<rparr>"

text \<open>
  A format 0 file, 480 ticks to the quarter, one track: set tempo 500000 at tick 0,
  note on 60 at tick 0, note off 60 after 480 ticks, end of track.
\<close>

definition exampleB :: "byte list" where
  "exampleB =
     [0x4D, 0x54, 0x68, 0x64, 0, 0, 0, 6, 0, 0, 0, 1, 0x01, 0xE0,
      0x4D, 0x54, 0x72, 0x6B, 0, 0, 0, 0x14,
      0x00, 0xFF, 0x51, 0x03, 0x07, 0xA1, 0x20,
      0x00, 0x90, 0x3C, 0x64,
      0x83, 0x60, 0x80, 0x3C, 0x00,
      0x00, 0xFF, 0x2F, 0x00]"

definition noGlobals :: app where
  "noGlobals =
     \<lparr>g_midiEvents = [], g_notePairs = [], g_nextEventIndex = 0, g_totalDuration = 0,
      g_currentTimeOffset = 0, consoleOut = []\<rparr>"

text \<open>Documents: an element without attributes, an element holding text, a pitched note.\<close>

definition el :: "string \<Rightarrow> node list \<Rightarrow> node" where
  "el t cs = Element t [] cs"

definition leaf :: "string \<Rightarrow> string \<Rightarrow> node" where
  "leaf t s = Element t [] [Text s]"

definition pitched :: "string \<Rightarrow> string \<Rightarrow> string \<Rightarrow> bool \<Rightarrow> node" where
  "pitched st oc d inChord =
     el ''note'' ((if inChord then [el ''chord'' []] else []) @
                  [el ''pitch'' [leaf ''step'' st, leaf ''octave'' oc], leaf ''duration'' d])"

text \<open>The MusicXML document of example A.\<close>

definition exampleADoc :: node where
  "exampleADoc =
     el ''score-partwise'' [el ''part'' [el ''measure''
       [el ''attributes''
          [leaf ''divisions'' ''1'',
           el ''time'' [leaf ''beats'' ''4'', leaf ''beat-type'' ''4'']],
        el ''direction'' [Element ''sound'' [(''tempo'', ''120'')] []],
        pitched ''C'' ''4'' ''1'' False,
        el ''note'' [el ''rest'' [], leaf ''duration'' ''1''],
        pitched ''E'' ''4'' ''1'' False]]]"

text \<open>A measure with the chord C4 E4 G4 (quarter notes), then D4.\<close>

definition chordDoc :: node where
  "chordDoc =
     el ''score-partwise'' [el ''part'' [el ''measure''
       [pitched ''C'' ''4'' ''1'' False, pitched ''E'' ''4'' ''1'' True,
        pitched ''G'' ''4'' ''1'' True, pitched ''D'' ''4'' ''1'' False]]]"

text \<open>A measure whose second note has a \<open>pitch\<close> with no \<open>step\<close>, between C4 and D4.\<close>

definition noStepDoc :: node where
  "noStepDoc =
     el ''score-partwise'' [el ''part'' [el ''measure''
       [pitched ''C'' ''4'' ''1'' False,
        el ''note'' [el ''pitch'' [leaf ''octave'' ''4''], leaf ''duration'' ''1''],
        pitched ''D'' ''4'' ''1'' False]]]"

section \<open>Proofs\<close>

declare vlqHigh.simps [simp del]
declare readVarLoop.simps [simp del]
declare scanFrom.simps [simp del]

subsection \<open>The merge step of convertToMIDI\<close>

lemma map_of_map_set: "map_of (map_set k v m) = (map_of m)(k \<mapsto> v)"
  by (induction m) (auto simp: fun_eq_iff)

lemma keys_map_set:
  "map fst (map_set k v m) = (if k \<in> fst ` set m then map fst m else map fst m @ [k])"
  by (induction m) auto

lemma map_set_new: "k \<notin> fst ` set m \<Longrightarrow> map_set k v m = m @ [(k, v)]"
  by (induction m) auto

lemma map_set_last: "k \<notin> fst ` set m \<Longrightarrow> map_set k v (m @ [(k, w)]) = m @ [(k, v)]"
  by (induction m) auto

lemma lookup2_step:
  "lookup2 (dedupStep x M) = keepStep x (lookup2 M)"
  by (auto simp: fun_eq_iff lookup2_def dedupStep_def keepStep_def groupKey_def Let_def map_of_map_set
      split: option.splits)

lemma lookup2_fold:
  "lookup2 (fold dedupStep xs M) = fold keepStep xs (lookup2 M)"
  by (induction xs arbitrary: M) (simp_all add: lookup2_step)

lemma keeps_snoc: "keeps (xs @ [x]) = keepStep x (keeps xs)"
  by (simp add: keeps_def)

lemma keeps_None: "keeps xs k = None \<longleftrightarrow> k \<notin> groupKey ` set xs"
  by (induction xs rule: rev_induct) (auto simp: keeps_snoc keepStep_def keeps_def)

lemma keeps_Some:
  "keeps xs k = Some n \<Longrightarrow>
     groupKey n = k \<and>
     (\<exists>pre post. xs = pre @ n # post \<and>
        (\<forall>m\<in>set pre. groupKey m = k \<longrightarrow> a_duration m < a_duration n) \<and>
        (\<forall>m\<in>set post. groupKey m = k \<longrightarrow> a_duration m \<le> a_duration n))"
proof (induction xs arbitrary: n rule: rev_induct)
  case Nil
  then show ?case by (simp add: keeps_def)
next
  case (snoc x xs)
  show ?case
  proof (cases "groupKey x = k")
    case False
    with snoc.prems have "keeps xs k = Some n"
      by (simp add: keeps_snoc keepStep_def)
    from snoc.IH [OF this] obtain pre post where
      k: "groupKey n = k" and s: "xs = pre @ n # post"
      and a: "\<forall>m\<in>set pre. groupKey m = k \<longrightarrow> a_duration m < a_duration n"
      and b: "\<forall>m\<in>set post. groupKey m = k \<longrightarrow> a_duration m \<le> a_duration n"
      by blast
    from s have "xs @ [x] = pre @ n # (post @ [x])" by simp
    moreover from b False
    have "\<forall>m\<in>set (post @ [x]). groupKey m = k \<longrightarrow> a_duration m \<le> a_duration n" by auto
    ultimately show ?thesis using k a by blast
  next
    case True
    show ?thesis
    proof (cases "keeps xs k")
      case None
      with snoc.prems True have nx: "n = x" by (simp add: keeps_snoc keepStep_def)
      from None have "\<forall>m\<in>set xs. groupKey m \<noteq> k" by (auto simp: keeps_None)
      then have "\<forall>m\<in>set xs. groupKey m = k \<longrightarrow> a_duration m < a_duration n" by blast
      moreover have "xs @ [x] = xs @ n # []" by (simp add: nx)
      ultimately show ?thesis using True nx by (metis empty_iff empty_set)
    next
      case (Some e)
      from snoc.IH [OF Some] obtain pre post where
        k: "groupKey e = k" and s: "xs = pre @ e # post"
        and a: "\<forall>m\<in>set pre. groupKey m = k \<longrightarrow> a_duration m < a_duration e"
        and b: "\<forall>m\<in>set post. groupKey m = k \<longrightarrow> a_duration m \<le> a_duration e"
        by blast
      show ?thesis
      proof (cases "a_duration x > a_duration e")
        case longer: True
        with snoc.prems True Some have nx: "n = x" by (simp add: keeps_snoc keepStep_def)
        have "\<forall>m\<in>set xs. groupKey m = k \<longrightarrow> a_duration m < a_duration n"
          using a b s longer nx by auto
        moreover have "xs @ [x] = xs @ n # []" by (simp add: nx)
        ultimately show ?thesis using True nx by (metis empty_iff empty_set)
      next
        case False
        with snoc.prems True Some have ne: "n = e" by (simp add: keeps_snoc keepStep_def)
        from s have "xs @ [x] = pre @ n # (post @ [x])" by (simp add: ne)
        moreover from b False
        have "\<forall>m\<in>set (post @ [x]). groupKey m = k \<longrightarrow> a_duration m \<le> a_duration n"
          by (auto simp: ne)
        ultimately show ?thesis using k a ne by blast
      qed
    qed
  qed
qed

lemma list_all_map_set:
  "list_all P m \<Longrightarrow> P (k, v) \<Longrightarrow> list_all P (map_set k v m)"
  by (induction m) auto

lemma distinct_map_set: "distinct (map fst m) \<Longrightarrow> distinct (map fst (map_set k v m))"
  by (auto simp: keys_map_set)

lemma map_set_nonempty: "map_set k v m \<noteq> []"
  by (cases m) auto

lemma map_of_wf:
  "list_all P m \<Longrightarrow> map_of m k = Some v \<Longrightarrow> P (k, v)"
  by (induction m) (auto split: if_splits)

lemma map_of_None_keys: "map_of m k = None \<longleftrightarrow> k \<notin> fst ` set m"
  by (simp add: map_of_eq_None_iff)

lemma dedupStep_new:
  assumes "map_of M (timeKey x) = None"
  shows "dedupStep x M = M @ [(timeKey x, [(a_midiNote x, x)])]"
proof -
  from assms have k: "timeKey x \<notin> fst ` set M" by (simp add: map_of_None_keys)
  then have "map_set (timeKey x) [] M = M @ [(timeKey x, [])]" by (rule map_set_new)
  moreover have "map_of (M @ [(timeKey x, [])]) (timeKey x) = Some []"
    using assms by (simp add: map_add_def)
  ultimately show ?thesis
    using assms k by (simp add: dedupStep_def Let_def map_set_last)
qed

lemma dedupStep_old:
  assumes "map_of M (timeKey x) = Some inner"
  shows "dedupStep x M = map_set (timeKey x) (innerStep x inner) M"
  using assms by (simp add: dedupStep_def Let_def innerStep_def split: option.splits)

lemma wfInner_step:
  assumes "wfInner (timeKey x) inner"
  shows "wfInner (timeKey x) (innerStep x inner)"
proof -
  have "wfInner (timeKey x) (map_set (a_midiNote x) x inner)"
    using assms by (simp add: wfInner_def map_set_nonempty distinct_map_set list_all_map_set)
  then show ?thesis using assms by (simp add: innerStep_def split: option.splits)
qed

lemma wfMap_step:
  assumes wf: "wfMap M"
  shows "wfMap (dedupStep x M)"
proof (cases "map_of M (timeKey x)")
  case None
  then have "timeKey x \<notin> fst ` set M" by (simp add: map_of_None_keys)
  then show ?thesis
    using wf by (simp add: dedupStep_new [OF None] wfMap_def wfInner_def)
next
  case (Some inner)
  from wf have "list_all (\<lambda>entry. wfInner (fst entry) (snd entry)) M" by (simp add: wfMap_def)
  from map_of_wf [OF this Some] have "wfInner (timeKey x) inner" by simp
  then have "wfInner (timeKey x) (innerStep x inner)" by (rule wfInner_step)
  then show ?thesis
    using wf by (simp add: dedupStep_old [OF Some] wfMap_def distinct_map_set list_all_map_set)
qed

lemma wfMap_fold: "wfMap M \<Longrightarrow> wfMap (fold dedupStep xs M)"
  by (induction xs arbitrary: M) (simp_all add: wfMap_step)

lemma wfMap_dedup: "wfMap (dedup xs)"
  unfolding dedup_def by (rule wfMap_fold) (simp add: wfMap_def)





lemma wfMap_entry:
  assumes "wfMap M" and "(tk, inner) \<in> set M" and "(mk, n) \<in> set inner"
  shows "timeKey n = tk \<and> a_midiNote n = mk \<and> distinct (map fst inner)"
proof -
  from assms(1,2) have "wfInner tk inner" by (fastforce simp: wfMap_def list_all_iff)
  with assms(3) show ?thesis by (fastforce simp: wfInner_def list_all_iff)
qed

lemma lookup2_flatten:
  assumes wf: "wfMap M"
  shows "lookup2 M k = Some n \<longleftrightarrow> n \<in> set (flatten M) \<and> groupKey n = k"
proof
  assume l: "lookup2 M k = Some n"
  then obtain inner where mi: "map_of M (fst k) = Some inner" and mn: "map_of inner (snd k) = Some n"
    by (auto simp: lookup2_def split: option.splits)
  from mi have e: "(fst k, inner) \<in> set M" by (rule map_of_SomeD)
  from mn have i: "(snd k, n) \<in> set inner" by (rule map_of_SomeD)
  from e i have "n \<in> set (flatten M)" by (force simp: flatten_def)
  moreover from wfMap_entry [OF wf e i] have "groupKey n = k"
    by (simp add: groupKey_def)
  ultimately show "n \<in> set (flatten M) \<and> groupKey n = k" by simp
next
  assume "n \<in> set (flatten M) \<and> groupKey n = k"
  then obtain tk inner mk where e: "(tk, inner) \<in> set M" and i: "(mk, n) \<in> set inner"
    and k: "groupKey n = k"
    by (auto simp: flatten_def)
  from wfMap_entry [OF wf e i] have tk: "timeKey n = tk" and mk: "a_midiNote n = mk"
    and d: "distinct (map fst inner)"
    by simp_all
  from wf e have "map_of M tk = Some inner" by (simp add: wfMap_def)
  moreover from d i have "map_of inner mk = Some n" by simp
  ultimately show "lookup2 M k = Some n" using k tk mk by (auto simp: lookup2_def groupKey_def)
qed

lemma lookup2_Nil: "lookup2 [] = Map.empty"
  by (simp add: lookup2_def fun_eq_iff)

lemma lookup2_dedup: "lookup2 (dedup xs) = keeps xs"
  by (simp add: dedup_def keeps_def lookup2_fold lookup2_Nil)

lemma survivors_flatten: "survivors ns = flatten (dedup ns)"
  by (simp add: survivors_def flatten_def)

lemma survivors_keeps: "n \<in> set (survivors ns) \<longleftrightarrow> keeps ns (groupKey n) = Some n"
  using lookup2_flatten [OF wfMap_dedup, of ns "groupKey n" n]
  by (simp add: survivors_flatten lookup2_dedup)






lemma survivors_subset: "set (survivors ns) \<subseteq> set ns"
proof
  fix n assume "n \<in> set (survivors ns)"
  then have "keeps ns (groupKey n) = Some n" by (simp add: survivors_keeps)
  from keeps_Some [OF this] show "n \<in> set ns" by auto
qed









text \<open>
  Claim C2. On the score of example A, \<open>msPerDivision\<close> is 500, C4 sounds from 0 to 500,
  E4 from 1000 to 1500, and \<open>totalDuration\<close> is 1500. The score is the one
  \<open>parseXMLString\<close> returns on the document of example A.
\<close>

theorem example_A_conversion:
  "(case parseXMLString exampleADoc of Inr (Some sd) \<Rightarrow> finiteScore sd | _ \<Rightarrow> None)
     = Some exampleA \<and>
   msPerDivision exampleA = 500 \<and>
   convertToMIDI (Some exampleA) =
     \<lparr>midiEvents =
        [\<lparr>e_time = 0, e_data = [0x90, 60, 100]\<rparr>, \<lparr>e_time = 500, e_data = [0x80, 60, 0]\<rparr>,
         \<lparr>e_time = 1000, e_data = [0x90, 64, 100]\<rparr>, \<lparr>e_time = 1500, e_data = [0x80, 64, 0]\<rparr>],
      notePairs = [\<lparr>p_note = 60, p_start = 0, p_end = 500\<rparr>,
                   \<lparr>p_note = 64, p_start = 1000, p_end = 1500\<rparr>],
      totalDuration = 1500\<rparr>"
proof -
  have p: "(case parseXMLString exampleADoc of Inr (Some sd) \<Rightarrow> finiteScore sd | _ \<Rightarrow> None)
     = Some exampleA"
    by code_simp
  have d: "msPerDivision exampleA = 500"
    by (simp add: msPerDivision_def exampleA_def)
  have a: "allNotes exampleA =
      [\<lparr>a_midiNote = 60, a_startTime = 0, a_endTime = 500, a_duration = 1\<rparr>,
       \<lparr>a_midiNote = 64, a_startTime = 1000, a_endTime = 1500, a_duration = 1\<rparr>]"
    by (simp add: allNotes_def msPerDivision_def msPerMeasure_def exampleA_def absolute_def)
  have s: "survivors (allNotes exampleA) = allNotes exampleA"
    by (simp add: a survivors_def dedup_def dedupStep_def timeKey_def js_round_def)
  have "convertToMIDI (Some exampleA) =
     \<lparr>midiEvents =
        [\<lparr>e_time = 0, e_data = [0x90, 60, 100]\<rparr>, \<lparr>e_time = 500, e_data = [0x80, 60, 0]\<rparr>,
         \<lparr>e_time = 1000, e_data = [0x90, 64, 100]\<rparr>, \<lparr>e_time = 1500, e_data = [0x80, 64, 0]\<rparr>],
      notePairs = [\<lparr>p_note = 60, p_start = 0, p_end = 500\<rparr>,
                   \<lparr>p_note = 64, p_start = 1000, p_end = 1500\<rparr>],
      totalDuration = 1500\<rparr>"
    by (simp add: convertToMIDI_def mergeNotes_def s) (simp add: a noteOn_def noteOff_def pairOf_def)
  with p d show ?thesis by (simp only: simp_thms)
qed

lemma measureNotes_pitch:
  "n \<in> set (measureNotes mm md idx ms) \<Longrightarrow> a_midiNote n \<noteq> 0"
proof (induction ms arbitrary: idx)
  case Nil
  then show ?case by simp
next
  case (Cons m ms)
  have "a_midiNote n \<noteq> 0" if "n \<in> set (absolute st md x)" for st x
    using that by (cases x rule: sounding.cases) (auto simp: absolute_def Let_def split: if_splits)
  with Cons show ?case by auto
qed

text \<open>
  Claim C10. A note of step C, octave -1 and no alteration has MIDI pitch 0, which the
  truthiness test reads as not sounding, as it reads a rest; so for every score no
  event and no note pair of \<open>convertToMIDI\<close> carries pitch 0.
\<close>

theorem pitch_zero_excluded:
  "stepToMidi ''C'' (Some (- 1)) (Some 0) = Some 0 \<and>
   sounding (NoteData s oc al d t (Some 0) c p) = None \<and>
   (\<forall>ev\<in>set (midiEvents (convertToMIDI (Some sd))). e_data ev ! 1 \<noteq> 0) \<and>
   (\<forall>np\<in>set (notePairs (convertToMIDI (Some sd))). p_note np \<noteq> 0)"
proof -
  have k: "a_midiNote n \<noteq> 0" if "n \<in> set (survivors (allNotes sd))" for n
  proof -
    from that survivors_subset have "n \<in> set (allNotes sd)" by blast
    then show ?thesis by (auto simp: allNotes_def dest: measureNotes_pitch)
  qed
  have "stepToMidi ''C'' (Some (- 1)) (Some 0) = Some 0"
    by (simp add: stepToMidi_def steps_def)
  moreover have "\<forall>ev\<in>set (midiEvents (convertToMIDI (Some sd))). e_data ev ! 1 \<noteq> 0"
    using k by (auto simp: convertToMIDI_def mergeNotes_def Let_def noteOn_def noteOff_def)
  moreover have "\<forall>np\<in>set (notePairs (convertToMIDI (Some sd))). p_note np \<noteq> 0"
    using k by (auto simp: convertToMIDI_def mergeNotes_def Let_def pairOf_def)
  ultimately show ?thesis by simp
qed

theorem pitch_zero_excluded_witness:
  "map p_note (notePairs (convertToMIDI (Some pitchZeroScore))) = [60] \<and>
   list_all (\<lambda>ev. e_data ev ! 1 \<noteq> 0) (midiEvents (convertToMIDI (Some pitchZeroScore))) \<and>
   list_all (\<lambda>np. p_note np \<noteq> 0) (notePairs (convertToMIDI (Some pitchZeroScore)))"
proof -
  have "map p_note (notePairs (convertToMIDI (Some pitchZeroScore))) = [60]"
    by code_simp
  with pitch_zero_excluded [of _ _ _ _ _ _ _ pitchZeroScore] show ?thesis
    by (simp only: list_all_iff) simp
qed

subsection \<open>Variable-length quantities are read back\<close>

lemma m7f: "(0x7f :: 'a::len word) = mask 7"
  by (simp add: mask_eq_exp_minus_1)

lemma m80: "(0x80 :: 'a::len word) = 2 ^ 7"
  by simp

lemma bit_128_byte: "bit (128 :: byte) n \<longleftrightarrow> n = 7"
proof -
  have "bit ((2::byte) ^ 7) n \<longleftrightarrow> n = 7" by (simp only: bit_exp_iff) auto
  then show ?thesis by simp
qed

lemma bit_128_nat: "bit (128 :: nat) n \<longleftrightarrow> n = 7"
proof -
  have "bit ((2::nat) ^ 7) n \<longleftrightarrow> n = 7" by (simp only: bit_exp_iff) auto
  then show ?thesis by simp
qed

lemma bit_128_int: "bit (128 :: int) n \<longleftrightarrow> n = 7"
proof -
  have "bit ((2::int) ^ 7) n \<longleftrightarrow> n = 7" by (simp only: bit_exp_iff) auto
  then show ?thesis by simp
qed

lemma bit_128_int32: "bit (128 :: 32 word) n \<longleftrightarrow> n = 7"
proof -
  have "bit ((2::32 word) ^ 7) n \<longleftrightarrow> n = 7" by (simp only: bit_exp_iff) auto
  then show ?thesis by simp
qed

lemma mod128: "(of_nat (m mod 128) :: 'a::len word) = take_bit 7 (of_nat m)"
proof -
  have "m mod 128 = take_bit 7 m" by (simp add: take_bit_eq_mod)
  then show ?thesis by (simp only: take_bit_of_nat)
qed

lemma cont_flag: "toInt32 (Some (of_nat (m mod 128) OR 0x80)) AND 0x80 \<noteq> 0"
proof -
  define X where "X = ucast (take_bit 7 (of_nat m) OR (2 ^ 7 :: byte)) AND (2 ^ 7 :: 32 word)"
  have "bit X 7" unfolding X_def by (simp only: bit_simps) simp
  then have "X \<noteq> 0" by auto
  moreover have "toInt32 (Some (of_nat (m mod 128) OR 0x80)) AND 0x80 = X"
    unfolding X_def by (simp only: toInt32_def option.case mod128 m80)
  ultimately show ?thesis by simp
qed

lemma cont_bits: "toInt32 (Some (of_nat (m mod 128) OR 0x80)) AND 0x7f = of_nat (m mod 128)"
proof -
  have "ucast (take_bit 7 (of_nat m) OR (2 ^ 7 :: byte)) AND (mask 7 :: 32 word) = take_bit 7 (of_nat m)"
    by (rule bit_word_eqI) (auto simp: bit_simps bit_128_byte bit_128_int32 bit_128_nat bit_128_int)
  then show ?thesis by (simp only: toInt32_def option.case mod128 m80 m7f)
qed

lemma last_flag: "toInt32 (Some (of_nat (m mod 128))) AND 0x80 = 0"
proof -
  have "ucast (take_bit 7 (of_nat m) :: byte) AND (2 ^ 7 :: 32 word) = 0"
    by (rule bit_word_eqI) (auto simp: bit_simps bit_128_byte bit_128_int32 bit_128_nat bit_128_int)
  then show ?thesis by (simp only: toInt32_def option.case mod128 m80)
qed

lemma last_bits: "toInt32 (Some (of_nat (m mod 128))) AND 0x7f = of_nat (m mod 128)"
proof -
  have "ucast (take_bit 7 (of_nat m) :: byte) AND (mask 7 :: 32 word) = take_bit 7 (of_nat m)"
    by (rule bit_word_eqI) (auto simp: bit_simps)
  then show ?thesis by (simp only: toInt32_def option.case mod128 m7f)
qed

lemma shift_or: "push_bit 7 (v :: 32 word) OR of_nat (m mod 128) = v * 128 + of_nat (m mod 128)"
proof -
  have "push_bit 7 v OR take_bit 7 (of_nat m :: 32 word) = push_bit 7 v + take_bit 7 (of_nat m)"
    by (rule disjunctive_add [symmetric]) (auto simp: bit_simps)
  then show ?thesis by (simp add: mod128 push_bit_eq_mult)
qed

lemma byteAt_at:
  "byteAt (pre @ x # rest) (int (length pre)) = Some x"
  by (simp add: byteAt_def nth_append)

lemma length_vlqHigh_step:
  "m \<noteq> 0 \<Longrightarrow> vlqHigh m = vlqHigh (m div 128) @ [of_nat (m mod 128) OR 0x80]"
  by (subst vlqHigh.simps) simp

lemma split128: "(of_nat m :: 32 word) = of_nat (m div 128) * 128 + of_nat (m mod 128)"
proof -
  have "m = m div 128 * 128 + m mod 128" by simp
  then have "(of_nat m :: 32 word) = of_nat (m div 128 * 128 + m mod 128)"
    by (rule arg_cong)
  then show ?thesis by (simp only: of_nat_add of_nat_mult of_nat_numeral)
qed

lemma readVarLoop_high:
  "readVarLoop (pre @ vlqHigh m @ rest) (int (length pre)) v
   = readVarLoop (pre @ vlqHigh m @ rest) (int (length pre) + int (length (vlqHigh m)))
       (v * 128 ^ length (vlqHigh m) + of_nat m)"
proof (induction m arbitrary: rest rule: vlqHigh.induct)
  case (1 m)
  show ?case
  proof (cases "m = 0")
    case True
    then show ?thesis by (simp add: vlqHigh.simps)
  next
    case False
    define c :: byte where "c = of_nat (m mod 128) OR 0x80"
    define hi where "hi = vlqHigh (m div 128)"
    define data where "data = pre @ hi @ c # rest"
    have enc: "vlqHigh m = hi @ [c]"
      using False by (simp add: length_vlqHigh_step c_def hi_def)
    have d: "pre @ vlqHigh m @ rest = data" by (simp add: enc data_def)
    have ih: "readVarLoop data (int (length pre)) v =
              readVarLoop data (int (length pre) + int (length hi))
                (v * 128 ^ length hi + of_nat (m div 128))"
      using "1.IH" [OF False, of "c # rest"] by (simp add: data_def hi_def)
    have at: "byteAt data (int (length pre) + int (length hi)) = Some c"
      using byteAt_at [of "pre @ hi" c rest] by (simp add: data_def)
    have step: "readVarLoop data (int (length pre) + int (length hi)) w =
                readVarLoop data (int (length pre) + int (length hi) + 1)
                  (w * 128 + of_nat (m mod 128))" for w
      by (subst readVarLoop.simps) (simp add: at c_def cont_flag cont_bits shift_or)
    have acc: "(v * 128 ^ length hi + of_nat (m div 128)) * 128 + (of_nat (m mod 128) :: 32 word)
          = v * 128 ^ length (vlqHigh m) + of_nat m"
      by (simp add: enc algebra_simps split128 [of m])
    have len: "int (length pre) + int (length hi) + 1 = int (length pre) + int (length (vlqHigh m))"
      by (simp add: enc)
    have "readVarLoop data (int (length pre)) v =
          readVarLoop data (int (length pre) + int (length hi) + 1)
            ((v * 128 ^ length hi + of_nat (m div 128)) * 128 + of_nat (m mod 128))"
      by (simp only: ih step)
    then have "readVarLoop data (int (length pre)) v =
          readVarLoop data (int (length pre) + int (length (vlqHigh m)))
            (v * 128 ^ length (vlqHigh m) + of_nat m)"
      by (simp only: acc len)
    then show ?thesis by (simp only: d)
  qed
qed

lemma sint_small:
  assumes "n < 2 ^ 31"
  shows "sint (of_nat n :: 32 word) = int n"
proof -
  have "(of_nat n :: 32 word) = word_of_int (int n)" by simp
  then have "sint (of_nat n :: 32 word) = signed_take_bit (LENGTH(32) - 1) (int n)"
    by (simp only: sint_sbintrunc')
  moreover from assms have "int n < 2 ^ 31" by (metis of_nat_less_numeral_power_cancel_iff)
  then have "signed_take_bit (LENGTH(32) - 1) (int n) = int n"
    by (intro signed_take_bit_int_eq_self) simp_all
  ultimately show ?thesis by simp
qed

lemma readVarLoop_encode:
  "readVarLoop (pre @ vlqEncode n @ rest) (int (length pre)) 0 =
     (of_nat n, int (length pre) + int (length (vlqEncode n)))"
proof -
  define hi where "hi = vlqHigh (n div 128)"
  define l :: byte where "l = of_nat (n mod 128)"
  define data where "data = pre @ hi @ l # rest"
  have d: "pre @ vlqEncode n @ rest = data" by (simp add: vlqEncode_def data_def hi_def l_def)
  have "readVarLoop data (int (length pre)) 0 =
        readVarLoop data (int (length pre) + int (length hi)) (of_nat (n div 128))"
    using readVarLoop_high [of pre "n div 128" "l # rest" 0] by (simp add: data_def hi_def)
  moreover have "byteAt data (int (length pre) + int (length hi)) = Some l"
    using byteAt_at [of "pre @ hi" l rest] by (simp add: data_def)
  then have "readVarLoop data (int (length pre) + int (length hi)) (of_nat (n div 128)) =
        (of_nat (n div 128) * 128 + of_nat (n mod 128), int (length pre) + int (length hi) + 1)"
    by (subst readVarLoop.simps) (simp add: l_def last_flag last_bits shift_or)
  ultimately have "readVarLoop data (int (length pre)) 0 =
        (of_nat n, int (length pre) + int (length hi) + 1)"
    by (simp only: split128 [of n, symmetric])
  moreover have "int (length (vlqEncode n)) = int (length hi) + 1"
    by (simp add: vlqEncode_def hi_def)
  ultimately show ?thesis by (simp only: d) simp
qed

text \<open>
  Claim C8. For every \<open>n\<close> below \<open>2^28\<close>, \<open>readVar\<close> at the place where the encoding
  of \<open>n\<close> starts, whatever bytes stand before and after it, returns \<open>n\<close> and leaves
  \<open>pos\<close> just behind the encoding.
\<close>

theorem vlq_round_trip:
  assumes "n < 2 ^ 28"
  shows "readVar (pre @ vlqEncode n @ rest) (int (length pre)) =
           (int n, int (length pre) + int (length (vlqEncode n)))"
proof -
  have "(2::nat) ^ 28 \<le> 2 ^ 31" by (rule power_increasing) simp_all
  with assms have "n < 2 ^ 31" by (rule less_le_trans)
  then have "sint (of_nat n :: 32 word) = int n" by (rule sint_small)
  then show ?thesis by (simp only: readVar_def readVarLoop_encode prod.case)
qed

theorem vlq_round_trip_witness:
  "vlqEncode 480 = [0x83, 0x60] \<and> readVar [0x83, 0x60] 0 = (480, 2)"
proof -
  have e: "vlqEncode 480 = [0x83, 0x60]" by code_simp
  have "(480::nat) < 2 ^ 28" by simp
  from vlq_round_trip [OF this, of "[]" "[]"] show ?thesis by (simp add: e)
qed

subsection \<open>The header check of parseMidiFile\<close>

lemma js_slice_head: "js_slice data 0 4 = take 4 data"
  by (simp add: js_slice_def Let_def min_def)

lemma char_of_byte: "char_of (unat (b :: byte)) = c \<longleftrightarrow> b = of_nat (of_char c)"
proof
  assume "char_of (unat b) = c"
  then have "of_char (char_of (unat b)) = (of_char c :: nat)" by simp
  moreover have "unat b < 256" using unsigned_less [of b] by simp
  ultimately have "unat b = of_char c" by (simp add: of_char_of)
  then have "(of_nat (unat b) :: byte) = of_nat (of_char c)" by (rule arg_cong)
  then show "b = of_nat (of_char c)" by simp
next
  assume "b = of_nat (of_char c)"
  then show "char_of (unat b) = c"
    by (simp add: unat_of_nat of_char_mod_256)
qed

lemma magic_bytes: "fst (readStr data 0 4) = ''MThd'' \<longleftrightarrow> take 4 data = smfMagic"
proof -
  have "map (\<lambda>b. char_of (unat b)) xs = ''MThd'' \<longleftrightarrow> xs = smfMagic" for xs :: "byte list"
    by (auto simp: smfMagic_def map_eq_Cons_conv char_of_byte)
  then show ?thesis by (simp add: readStr_def js_slice_head)
qed

lemma cleared_again:
  "(clearCurrentFile g)\<lparr>g_midiEvents := [], g_nextEventIndex := 0\<rparr> = clearCurrentFile g"
  by (simp add: clearCurrentFile_def)

text \<open>
  Claim C3, as amended. When the first 4 bytes are not \<open>MThd\<close>, \<open>parseMidiFile\<close>
  returns at the header check, whatever the fuel: the globals are those that
  \<open>clearCurrentFile\<close> leaves, with no event, no note pair and duration 0, and the
  console line is the one \<open>clearCurrentFile\<close> wrote. Nothing reports the header.
\<close>

theorem bad_magic_returns_cleared:
  assumes "take 4 data \<noteq> smfMagic"
  shows "parseMidiFile fuel (Some data) g = Some (clearCurrentFile g) \<and>
         g_midiEvents (clearCurrentFile g) = [] \<and> g_notePairs (clearCurrentFile g) = [] \<and>
         g_totalDuration (clearCurrentFile g) = 0 \<and>
         consoleOut (clearCurrentFile g) = ''Previous file cleared.''"
proof -
  from assms have "fst (readStr data 0 4) \<noteq> ''MThd''" by (simp add: magic_bytes)
  then have "parseMidiFile fuel (Some data) g = Some (clearCurrentFile g)"
    by (simp add: parseMidiFile_def Let_def cleared_again)
  then show ?thesis by (simp add: clearCurrentFile_def)
qed

theorem bad_magic_returns_cleared_witness:
  "parseMidiFile 0 (Some (bytesOf ''RIFF'')) noGlobals = Some (clearCurrentFile noGlobals)"
proof -
  have "take 4 (bytesOf ''RIFF'') \<noteq> smfMagic" by (simp add: bytesOf_def smfMagic_def)
  from bad_magic_returns_cleared [OF this] show ?thesis by simp
qed

theorem bad_magic_not_reported:
  "parseMidiFile 0 (Some (bytesOf ''RIFF'')) noGlobals =
     Some \<lparr>g_midiEvents = [], g_notePairs = [], g_nextEventIndex = 0, g_totalDuration = 0,
           g_currentTimeOffset = 0, consoleOut = ''Previous file cleared.''\<rparr>"
  by code_simp

subsection \<open>Example B\<close>

lemma trackLoop_more_fuel:
  "trackLoop n data stop st = Some r \<Longrightarrow> trackLoop (n + k) data stop st = Some r"
proof (induction n arbitrary: st)
  case 0
  then show ?case by (cases k) (simp_all split: if_splits)
next
  case (Suc n)
  then show ?case by (simp split: if_splits)
qed

lemma tracksLoop_more_fuel:
  "tracksLoop n t data st = Some r \<Longrightarrow> tracksLoop (n + k) t data st = Some r"
proof (induction t arbitrary: st)
  case 0
  then show ?case by simp
next
  case (Suc t)
  then show ?case
    by (auto simp: trackLoop_more_fuel split: prod.splits option.splits if_splits)
qed

lemma exampleB_header: "fst (readStr exampleB 0 4) = ''MThd'' \<and> readHeader exampleB 4 = (1, 480, 14)"
  by code_simp

lemma exampleB_tracks:
  "tracksLoop 4 1 exampleB
     \<lparr>pos = 14, curTick = 0, rs = None, events = [],
      tempoMap = [\<lparr>t_tick = 0, t_ms = 0, t_tempo = 500000\<rparr>]\<rparr>
   = Some \<lparr>pos = 42, curTick = 480, rs = Some 0xFF,
            events = [\<lparr>r_tick = 0, r_data = (Some 0x90, Some 0x3C, Some 0x64)\<rparr>,
                      \<lparr>r_tick = 480, r_data = (Some 0x80, Some 0x3C, Some 0)\<rparr>],
            tempoMap = [\<lparr>t_tick = 0, t_ms = 0, t_tempo = 500000\<rparr>,
                        \<lparr>t_tick = 0, t_ms = 0, t_tempo = 500000\<rparr>]\<rparr>"
  by code_simp

lemma exampleB_times:
  "timeEvents 480 \<lparr>pos = 42, curTick = 480, rs = Some 0xFF,
            events = [\<lparr>r_tick = 0, r_data = (Some 0x90, Some 0x3C, Some 0x64)\<rparr>,
                      \<lparr>r_tick = 480, r_data = (Some 0x80, Some 0x3C, Some 0)\<rparr>],
            tempoMap = [\<lparr>t_tick = 0, t_ms = 0, t_tempo = 500000\<rparr>,
                        \<lparr>t_tick = 0, t_ms = 0, t_tempo = 500000\<rparr>]\<rparr>
   = [\<lparr>f_tick = 0, f_data = (Some 0x90, Some 0x3C, Some 0x64), f_time = 0\<rparr>,
      \<lparr>f_tick = 480, f_data = (Some 0x80, Some 0x3C, Some 0), f_time = 500\<rparr>]"
  by code_simp

text \<open>
  Claim C5. On the file of example B (480 ticks to the quarter, one set-tempo event of
  500000 at tick 0, note on at tick 0 and note off at tick 480 for pitch 60), with fuel
  for its four track events or more, the parse returns two events: the note on at time
  0 and the note off at time 500.
\<close>

theorem example_B_times:
  "map_option g_midiEvents (parseMidiFile (4 + k) (Some exampleB) g) =
     Some [\<lparr>f_tick = 0, f_data = (Some 0x90, Some 60, Some 100), f_time = 0\<rparr>,
           \<lparr>f_tick = 480, f_data = (Some 0x80, Some 60, Some 0), f_time = 500\<rparr>]"
proof -
  have "snd (readStr exampleB 0 4) = 4" by (simp add: readStr_def)
  with tracksLoop_more_fuel [OF exampleB_tracks, of k] exampleB_header exampleB_times
  show ?thesis by (simp add: parseMidiFile_def Let_def del: tracksLoop.simps)
qed

subsection \<open>The fallback scan\<close>

lemma utf8_split:
  assumes a: "isAscii a"
  shows "0x80 \<le> lo \<Longrightarrow>
     utf8Decode need cp lo hi (xs @ a # post) =
     utf8Decode need cp lo hi (xs @ [a]) @ utf8Decode 0 0 0x80 0xBF post"
proof (induction xs arbitrary: need cp lo hi)
  case Nil
  from a have "unat a < 0x80" by (simp add: isAscii_def)
  with Nil show ?case by simp
next
  case (Cons b bs)
  have ih: "utf8Decode n c l h (bs @ a # post) =
            utf8Decode n c l h (bs @ [a]) @ utf8Decode 0 0 0x80 0xBF post"
    if "0x80 \<le> l" for n c l h
    using that by (rule Cons.IH)
  have first: "utf8Decode 0 c l h (b # bs @ a # post) =
               utf8Decode 0 c l h (b # bs @ [a]) @ utf8Decode 0 0 0x80 0xBF post" for c l h
    by (simp add: ih)
  show ?case
  proof (cases "need = 0")
    case True
    then show ?thesis using first by simp
  next
    case False
    then show ?thesis using first [of 0 "0x80" "0xBF"] by (simp add: ih)
  qed
qed

lemma decodeText_split:
  assumes "prefix xmlProlog doc" and "doc = body @ [a]" and "isAscii a"
  shows "decodeText td (doc @ post) =
         decodeText td doc @ (if td then utf8Decode 0 0 0x80 0xBF post else map unat post)"
proof -
  from assms(1) obtain r where r: "doc = xmlProlog @ r" by (auto simp: prefix_def)
  then have "take 3 doc \<noteq> [0xEF, 0xBB, 0xBF]" "take 3 (doc @ post) \<noteq> [0xEF, 0xBB, 0xBF]"
    by (simp_all add: xmlProlog_def)
  moreover have "utf8Decode 0 0 0x80 0xBF (doc @ post) =
                 utf8Decode 0 0 0x80 0xBF doc @ utf8Decode 0 0 0x80 0xBF post"
    using utf8_split [OF assms(3), of "0x80" 0 0 "0xBF" body post] by (simp add: assms(2))
  ultimately show ?thesis by (simp add: decodeText_def)
qed

lemma indexOf_length: "indexOf pat xs = Some k \<Longrightarrow> k + length pat \<le> length xs"
proof (induction xs arbitrary: k)
  case Nil
  then show ?case by (simp split: if_splits)
next
  case (Cons x xs)
  show ?case
  proof (cases "prefix pat (x # xs)")
    case True
    then have "length pat \<le> length (x # xs)" by (rule prefix_length_le)
    moreover from True Cons.prems have "k = 0" by simp
    ultimately show ?thesis by simp
  next
    case False
    with Cons.prems obtain k' where k': "indexOf pat xs = Some k'" and k: "k = Suc k'" by auto
    from Cons.IH [OF k'] k show ?thesis by simp
  qed
qed

lemma indexOf_append: "indexOf pat xs = Some k \<Longrightarrow> indexOf pat (xs @ ys) = Some k"
proof (induction xs arbitrary: k)
  case Nil
  then show ?case by (cases ys) (auto split: if_splits)
next
  case (Cons x xs)
  show ?case
  proof (cases "prefix pat (x # xs)")
    case True
    then have "prefix pat ((x # xs) @ ys)" by (rule prefix_prefix)
    with True Cons.prems show ?thesis by simp
  next
    case False
    with Cons.prems obtain k' where k': "indexOf pat xs = Some k'" and k: "k = Suc k'" by auto
    from indexOf_length [OF k'] have "length pat \<le> length (x # xs)" by simp
    with False have "\<not> prefix pat ((x # xs) @ ys)"
      by (metis prefix_length_prefix prefix_order.dual_order.refl prefixI append_prefixD prefix_append)
    with Cons.IH [OF k'] k show ?thesis by simp
  qed
qed

lemma scanFrom_end:
  "\<not> int i < int (length zipData) - 5 \<Longrightarrow> scanFrom td zipData i = None"
  by (subst scanFrom.simps) simp

lemma scanFrom_hit:
  "int i < int (length zipData) - 5 \<Longrightarrow> prologAt zipData i \<Longrightarrow>
   endIdx (window td zipData i) = Some k \<Longrightarrow>
   scanFrom td zipData i = Some (take (k + length endTag) (window td zipData i))"
  by (subst scanFrom.simps) simp

lemma scanFrom_miss:
  "int i < int (length zipData) - 5 \<Longrightarrow>
   \<not> (prologAt zipData i \<and> endIdx (window td zipData i) \<noteq> None) \<Longrightarrow>
   scanFrom td zipData i = scanFrom td zipData (Suc i)"
  by (subst scanFrom.simps) auto

lemma scanFrom_skip:
  "i \<le> k \<Longrightarrow> int k \<le> int (length zipData) - 5 \<Longrightarrow>
   (\<And>j. i \<le> j \<Longrightarrow> j < k \<Longrightarrow> \<not> prologAt zipData j) \<Longrightarrow>
   scanFrom td zipData i = scanFrom td zipData k"
proof (induction "k - i" arbitrary: i)
  case 0
  then show ?case by simp
next
  case (Suc d)
  then have lt: "i < k" and np: "\<not> prologAt zipData i" by auto
  from lt Suc.prems(2) have "int i < int (length zipData) - 5" by simp
  then have "scanFrom td zipData i = scanFrom td zipData (Suc i)"
    using np by (intro scanFrom_miss) simp_all
  moreover have "scanFrom td zipData (Suc i) = scanFrom td zipData k"
  proof (rule Suc.hyps(1))
    show "d = k - Suc i" using Suc.hyps(2) by simp
    show "Suc i \<le> k" using lt by simp
    show "int k \<le> int (length zipData) - 5" by (rule Suc.prems(2))
    show "\<not> prologAt zipData j" if "Suc i \<le> j" "j < k" for j
      using that Suc.prems(3) [of j] by simp
  qed
  ultimately show ?case by simp
qed

lemma scanFrom_None:
  "scanFrom td zipData i = None \<longleftrightarrow>
   (\<forall>j\<ge>i. int j < int (length zipData) - 5 \<and> prologAt zipData j
      \<longrightarrow> endIdx (window td zipData j) = None)"
proof (induction td zipData i rule: scanFrom.induct)
  case (1 td zipData i)
  let ?Q = "\<lambda>j. int j < int (length zipData) - 5 \<and> prologAt zipData j
      \<longrightarrow> endIdx (window td zipData j) = None"
  show ?case
  proof (cases "int i < int (length zipData) - 5")
    case False
    then have "\<And>j. i \<le> j \<Longrightarrow> ?Q j" by simp
    with scanFrom_end [OF False] show ?thesis by simp
  next
    case inside: True
    show ?thesis
    proof (cases "prologAt zipData i \<and> endIdx (window td zipData i) \<noteq> None")
      case True
      then obtain k where k: "endIdx (window td zipData i) = Some k" by auto
      from True have "scanFrom td zipData i \<noteq> None"
        by (simp add: scanFrom_hit [OF inside _ k])
      moreover from True inside have "\<not> ?Q i" by simp
      then have "\<not> (\<forall>j\<ge>i. ?Q j)" by blast
      ultimately show ?thesis by blast
    next
      case False
      have step: "scanFrom td zipData i = scanFrom td zipData (Suc i)"
        using inside False by (rule scanFrom_miss)
      from False have qi: "?Q i" by simp
      have "(\<forall>j\<ge>i. ?Q j) \<longleftrightarrow> (\<forall>j\<ge>Suc i. ?Q j)"
      proof
        assume "\<forall>j\<ge>i. ?Q j"
        then show "\<forall>j\<ge>Suc i. ?Q j" by (simp add: Suc_le_eq less_imp_le)
      next
        assume a: "\<forall>j\<ge>Suc i. ?Q j"
        show "\<forall>j\<ge>i. ?Q j"
        proof (rule allI, rule impI)
          fix j assume "i \<le> j"
          then have "j = i \<or> Suc i \<le> j" by auto
          then show "?Q j"
          proof
            assume "j = i" with qi show ?thesis by simp
          next
            assume "Suc i \<le> j" with a show ?thesis by simp
          qed
        qed
      qed
      with step "1.IH" [OF inside False] show ?thesis by simp
    qed
  qed
qed

lemma prologAt_doc:
  assumes "prefix xmlProlog doc"
  shows "prologAt (pre @ doc @ post) (length pre)"
proof -
  from assms obtain r where "doc = xmlProlog @ r" by (auto simp: prefix_def)
  then show ?thesis
    by (simp add: prologAt_def byteAt_def xmlProlog_def nth_append nat_add_distrib)
qed

lemma window_document:
  assumes "prefix xmlProlog doc" and "doc = body @ [a]" and "isAscii a"
    and "length doc \<le> 5000000"
  shows "\<exists>tail. window td (pre @ doc @ post) (length pre) = decodeText td doc @ tail"
proof -
  define n where "n = nat (min (int (length (doc @ post))) 5000000)"
  have "js_slice (pre @ doc @ post) (int (length pre))
          (int (length pre) + min (int (length (pre @ doc @ post)) - int (length pre)) 5000000)
        = take n (doc @ post)"
    by (simp add: js_slice_def n_def Let_def min_def)
  moreover from assms(4) have "length doc \<le> n" by (simp add: n_def)
  then have "take n (doc @ post) = doc @ take (n - length doc) post" by simp
  ultimately show ?thesis
    using decodeText_split [OF assms(1,2,3), of td "take (n - length doc) post"]
    by (simp add: window_def Let_def)
qed

lemma closing_ascii:
  assumes "suffix (bytesOf ''</score-partwise>'') doc \<or> suffix (bytesOf ''</score-timewise>'') doc"
  shows "\<exists>body a. doc = body @ [a] \<and> isAscii a \<and> 17 \<le> length doc"
proof -
  have p: "bytesOf ''</score-partwise>'' = bytesOf ''</score-partwise'' @ [0x3E]"
    and t: "bytesOf ''</score-timewise>'' = bytesOf ''</score-timewise'' @ [0x3E]"
    by (simp_all add: bytesOf_def)
  have l: "length (bytesOf ''</score-partwise>'') = 17" "length (bytesOf ''</score-timewise>'') = 17"
    by (simp_all add: bytesOf_def)
  have asc: "isAscii 0x3E" by (simp add: isAscii_def)
  from assms obtain front tag where d: "doc = front @ tag"
    and tag: "tag = bytesOf ''</score-partwise>'' \<or> tag = bytesOf ''</score-timewise>''"
    by (auto simp: suffix_def)
  from tag p t obtain stem where "tag = stem @ [0x3E]" by auto
  with d have "doc = (front @ stem) @ [0x3E]" by simp
  moreover from d tag l have "17 \<le> length doc" by auto
  ultimately show ?thesis using asc by blast
qed

lemma length_endTags: "length endTag = 17" "length endTag2 = 17"
  by (simp_all add: endTag_def endTag2_def str_def)

text \<open>
  Claim C9, as amended. Let the buffer be \<open>pre @ doc @ post\<close>, where \<open>doc\<close> starts with
  \<open><?xml\<close>, ends with one of the two closing tags and is at most 5000000 bytes long, no
  \<open><?xml\<close> starts before it, and the closing tag the scan settles on is the end of
  \<open>doc\<close>: the first \<open></score-partwise>\<close> of its text, or its first \<open></score-timewise>\<close>
  when the decoded window holds no \<open></score-partwise>\<close> at all. Then the fallback returns
  the decoded text of \<open>doc\<close>, closing tag included, whatever the other bytes of \<open>pre\<close>
  and \<open>post\<close> are. The function is total (it never throws), and it returns \<open>null\<close>
  exactly when no \<open><?xml\<close> at an index below \<open>length - 5\<close> has a closing tag in its
  window of 5000000 bytes.
\<close>

theorem fallback_returns_first_document:
  "(prefix xmlProlog doc \<and>
    (suffix (bytesOf ''</score-partwise>'') doc \<or> suffix (bytesOf ''</score-timewise>'') doc) \<and>
    length doc \<le> 5000000 \<and>
    (\<forall>i<length pre. \<not> prologAt (pre @ doc @ post) i) \<and>
    (indexOf endTag (decodeText td doc) = Some (length (decodeText td doc) - length endTag) \<or>
     indexOf endTag (window td (pre @ doc @ post) (length pre)) = None \<and>
     indexOf endTag2 (decodeText td doc) = Some (length (decodeText td doc) - length endTag2))
    \<longrightarrow> extractMXLFallback td (pre @ doc @ post) = Some (decodeText td doc)) \<and>
   (extractMXLFallback td zipData = None \<longleftrightarrow>
      (\<forall>i. int i < int (length zipData) - 5 \<and> prologAt zipData i
           \<longrightarrow> endIdx (window td zipData i) = None))"
proof (intro conjI impI)
  let ?z = "pre @ doc @ post"
  let ?w = "window td ?z (length pre)"
  let ?t = "decodeText td doc"
  let ?k = "length ?t - 17"
  assume h: "prefix xmlProlog doc \<and>
    (suffix (bytesOf ''</score-partwise>'') doc \<or> suffix (bytesOf ''</score-timewise>'') doc) \<and>
    length doc \<le> 5000000 \<and>
    (\<forall>i<length pre. \<not> prologAt ?z i) \<and>
    (indexOf endTag ?t = Some (length ?t - length endTag) \<or>
     indexOf endTag ?w = None \<and> indexOf endTag2 ?t = Some (length ?t - length endTag2))"
  then have pro: "prefix xmlProlog doc" and len: "length doc \<le> 5000000"
    and first: "\<And>i. i < length pre \<Longrightarrow> \<not> prologAt ?z i"
    by simp_all
  from h closing_ascii [of doc] obtain body a where
    d: "doc = body @ [a]" and a: "isAscii a" and long: "17 \<le> length doc"
    by blast
  from window_document [OF pro d a len, of td pre post] obtain tail where w: "?w = ?t @ tail"
    by blast
  from h have "indexOf endTag ?t = Some ?k \<or> indexOf endTag2 ?t = Some ?k"
    by (auto simp: length_endTags)
  then have tl: "?k + 17 \<le> length ?t"
    using indexOf_length [of endTag ?t ?k] indexOf_length [of endTag2 ?t ?k]
    by (auto simp: length_endTags)
  have e: "endIdx ?w = Some ?k"
  proof -
    from h consider
      (partwise) "indexOf endTag ?t = Some ?k"
      | (timewise) "indexOf endTag ?w = None" "indexOf endTag2 ?t = Some ?k"
      by (auto simp: length_endTags)
    then show ?thesis
    proof cases
      case partwise
      then have "indexOf endTag ?w = Some ?k" unfolding w by (rule indexOf_append)
      then show ?thesis by (simp add: endIdx_def)
    next
      case timewise
      from timewise(2) have "indexOf endTag2 ?w = Some ?k" unfolding w by (rule indexOf_append)
      with timewise(1) show ?thesis by (simp add: endIdx_def)
    qed
  qed
  have inside: "int (length pre) < int (length ?z) - 5" using long by simp
  have "scanFrom td ?z 0 = scanFrom td ?z (length pre)"
    using inside first by (intro scanFrom_skip) simp_all
  also have "\<dots> = Some (take (?k + length endTag) ?w)"
    using inside prologAt_doc [OF pro] e by (rule scanFrom_hit)
  also have "take (?k + length endTag) ?w = ?t"
    using tl by (simp add: w length_endTags)
  finally show "extractMXLFallback td ?z = Some ?t"
    by (simp add: extractMXLFallback_def)
next
  show "extractMXLFallback td zipData = None \<longleftrightarrow>
      (\<forall>i. int i < int (length zipData) - 5 \<and> prologAt zipData i
           \<longrightarrow> endIdx (window td zipData i) = None)"
    by (simp add: extractMXLFallback_def scanFrom_None)
qed

theorem fallback_returns_first_document_witness:
  "extractMXLFallback True
     ([0x50, 0x4B, 0xFF, 0x00]
      @ (bytesOf ''<?xml?><a>'' @ [0xC3, 0xA9] @ bytesOf ''</a></score-partwise>'')
      @ [0xC3, 0x28, 0x00])
   = Some (str ''<?xml?><a>'' @ [0xE9] @ str ''</a></score-partwise>'')"
proof -
  let ?pre = "[0x50, 0x4B, 0xFF, 0x00] :: byte list"
  let ?doc = "bytesOf ''<?xml?><a>'' @ [0xC3, 0xA9] @ bytesOf ''</a></score-partwise>''"
  let ?post = "[0xC3, 0x28, 0x00] :: byte list"
  have 1: "prefix xmlProlog ?doc" by code_simp
  have 2: "suffix (bytesOf ''</score-partwise>'') ?doc" by code_simp
  have 3: "length ?doc \<le> 5000000" by (simp add: bytesOf_def)
  have "\<not> prologAt (?pre @ ?doc @ ?post) i" if "i < 4" for i
  proof -
    from that have "i = 0 \<or> i = 1 \<or> i = 2 \<or> i = 3" by auto
    then show ?thesis by (auto simp: prologAt_def byteAt_def)
  qed
  then have 4: "\<forall>i<length ?pre. \<not> prologAt (?pre @ ?doc @ ?post) i" by simp
  have 5: "indexOf endTag (decodeText True ?doc)
           = Some (length (decodeText True ?doc) - length endTag)" by code_simp
  have 6: "decodeText True ?doc = str ''<?xml?><a>'' @ [0xE9] @ str ''</a></score-partwise>''"
    by code_simp
  from fallback_returns_first_document [of ?doc ?pre ?post True] 1 2 3 4 5
  have "extractMXLFallback True (?pre @ ?doc @ ?post) = Some (decodeText True ?doc)" by blast
  then show ?thesis by (simp only: 6)
qed

text \<open>
  The claim as it stands fails where the bytes around the document hold a tag of their
  own: a \<open><?xml\<close> before the document moves the start of the result, and a
  \<open></score-partwise>\<close> after a document that ends in \<open></score-timewise>\<close> moves its end.
\<close>

theorem fallback_follows_garbage:
  "extractMXLFallback True (bytesOf ''<?xml'' @ bytesOf ''<?xml?></score-partwise>'')
     = Some (str ''<?xml<?xml?></score-partwise>'') \<and>
   extractMXLFallback True (bytesOf ''<?xml?></score-timewise>'' @ bytesOf ''zz</score-partwise>'')
     = Some (str ''<?xml?></score-timewise>zz</score-partwise>'')"
  by code_simp

subsection \<open>Notes in parseXMLString\<close>

text \<open>
  Claim C1. On a measure with the chord C4 E4 G4 followed by D4, all of duration 1, the
  code records C4 at time 0 and the chord members E4 and G4 at time 1, the clock after
  C4 has advanced it, which is where D4 starts. The clock advances once for the group,
  but at the first note, so the members do not share its onset: converted, E4 and G4
  sound from 500 to 1000 with D4, after C4 has ended.
\<close>

theorem chord_member_onset:
  "parseXMLString chordDoc =
     Inr (Some \<lparr>measures =
            [\<lparr>m_number = 1,
              m_notes =
                [NoteData ''C'' (Some 4) (Some 0) (Some 1) (Some 0) (Some 60) False 0,
                 NoteData ''E'' (Some 4) (Some 0) (Some 1) (Some 1) (Some 64) True 0,
                 NoteData ''G'' (Some 4) (Some 0) (Some 1) (Some 1) (Some 67) True 0,
                 NoteData ''D'' (Some 4) (Some 0) (Some 1) (Some 1) (Some 62) False 0],
              m_width = 200\<rparr>],
          divisions = Some 1, fifths = Some 0, beats = Some 4,
          beatType = Some 4, tempo = Some 500000\<rparr>) \<and>
   map_option notePairs (parseAndConvert chordDoc) =
     Some [\<lparr>p_note = 60, p_start = 0, p_end = 500\<rparr>,
           \<lparr>p_note = 64, p_start = 500, p_end = 1000\<rparr>,
           \<lparr>p_note = 67, p_start = 500, p_end = 1000\<rparr>,
           \<lparr>p_note = 62, p_start = 500, p_end = 1000\<rparr>]"
  by code_simp

text \<open>
  Claim C4. On a measure whose second note has a \<open>pitch\<close> without a \<open>step\<close>, the lookup
  of the step's text throws a \<open>TypeError\<close> that nothing in \<open>parseXMLString\<close> catches:
  the parse returns no score, and the well-formed notes around the bad one are lost.
\<close>

theorem missing_step_throws:
  "parseXMLString noStepDoc = Inl TypeError"
  by code_simp

text \<open>
  What does hold of the clock: a \<open>note\<close> element with a \<open>pitch\<close> that is read without
  an exception is recorded at the current time; with a \<open>chord\<close> child it leaves the
  clock as it is, and without one it advances the clock by its duration, when it has a
  \<open>duration\<close> child.
\<close>

theorem chord_member_keeps_clock:
  assumes "hasTag ''note'' child" and "querySelector ''pitch'' child \<noteq> None"
    and "childStep partIdx child (t, ns) = Inr (t', ns')"
  shows "(querySelector ''chord'' child \<noteq> None \<longrightarrow> t' = t) \<and>
         (querySelector ''chord'' child = None \<longrightarrow>
            t' = (case querySelector ''duration'' child of
                    None \<Rightarrow> t
                  | Some d \<Rightarrow> nanAdd t (parseInt (textContent d)))) \<and>
         (\<exists>n. ns' = ns @ [n] \<and> time n = t \<and> isChord n = (querySelector ''chord'' child \<noteq> None))"
proof -
  from assms(1) have tags: "\<not> hasTag ''backup'' child" "\<not> hasTag ''forward'' child"
    by (cases child; simp)+
  from assms(2) obtain p where p: "querySelector ''pitch'' child = Some p" by auto
  from assms(3) show ?thesis
    by (auto simp: childStep_def assms(1) tags p Let_def split: option.splits if_splits)
qed

theorem chord_member_keeps_clock_witness:
  "childStep 0 (pitched ''E'' ''4'' ''1'' True) (Some 1, []) =
     Inr (Some 1, [NoteData ''E'' (Some 4) (Some 0) (Some 1) (Some 1) (Some 64) True 0])"
proof -
  have c: "childStep 0 (pitched ''E'' ''4'' ''1'' True) (Some 1, []) =
     Inr (Some 1, [NoteData ''E'' (Some 4) (Some 0) (Some 1) (Some 1) (Some 64) True 0])"
    by code_simp
  have 1: "hasTag ''note'' (pitched ''E'' ''4'' ''1'' True)" by code_simp
  have 2: "querySelector ''pitch'' (pitched ''E'' ''4'' ''1'' True) \<noteq> None" by code_simp
  from chord_member_keeps_clock [OF 1 2 c] c show ?thesis by simp
qed

end
